theory Spec2Isabelle
  imports Main "HOL-Library.Sublist" "HOL-Library.Multiset"
begin

section \<open>JavaScript strings\<close>

text \<open>
  A JavaScript string is modelled as a \<open>string\<close> (a list of \<open>char\<close>); the model is exact on
  ASCII text, which is all that the separators \<open>@\<close>, \<open>.\<close>, \<open>/\<close>, \<open>?\<close> and the keyword tables of
  the source involve.
\<close>

text \<open>\<open>String.prototype.toLowerCase\<close> on ASCII: only \<open>A\<close>..\<open>Z\<close> change.\<close>

definition lowerChar :: "char \<Rightarrow> char" where
  "lowerChar c =
     (case map_of (zip ''ABCDEFGHIJKLMNOPQRSTUVWXYZ'' ''abcdefghijklmnopqrstuvwxyz'') c of
        Some l \<Rightarrow> l
      | None \<Rightarrow> c)"

definition toLowerCase :: "string \<Rightarrow> string" where
  "toLowerCase s = map lowerChar s"

text \<open>\<open>String.prototype.trim\<close>: tab, line feed, vertical tab, form feed, carriage return, space.\<close>

definition isWhiteSpace :: "char \<Rightarrow> bool" where
  "isWhiteSpace c =
     (c \<in> {CHR 0x09, CHR 0x0A, CHR 0x0B, CHR 0x0C, CHR 0x0D, CHR 0x20})"

definition trim :: "string \<Rightarrow> string" where
  "trim s = rev (dropWhile isWhiteSpace (rev (dropWhile isWhiteSpace s)))"

text \<open>\<open>s.includes(sub)\<close>: \<open>sub\<close> occurs in \<open>s\<close> as a contiguous substring.\<close>

fun js_includes :: "string \<Rightarrow> string \<Rightarrow> bool" where
  "js_includes [] sub = (sub = [])"
| "js_includes (c # cs) sub = (prefix sub (c # cs) \<or> js_includes cs sub)"

text \<open>\<open>s.split(sep)\<close> for a one-character separator; \<open>"".split(sep)\<close> is \<open>[""]\<close>.\<close>

fun js_split :: "char \<Rightarrow> string \<Rightarrow> string list" where
  "js_split sep [] = [[]]"
| "js_split sep (c # cs) =
     (if c = sep then [] # js_split sep cs
      else (case js_split sep cs of
              x # xs \<Rightarrow> (c # x) # xs
            | [] \<Rightarrow> [[c]]))"

text \<open>\<open>xs.join(sep)\<close>.\<close>

fun js_join :: "string \<Rightarrow> string list \<Rightarrow> string" where
  "js_join sep [] = []"
| "js_join sep [x] = x"
| "js_join sep (x # y # ys) = x @ sep @ js_join sep (y # ys)"

section \<open>scraper.ts: e-mail validation\<close>

definition ASSET_EXTENSIONS :: "string set" where
  "ASSET_EXTENSIONS = set
     [''png'', ''jpg'', ''jpeg'', ''gif'', ''svg'', ''webp'', ''ico'', ''bmp'', ''tiff'',
      ''avif'', ''pdf'', ''woff'', ''woff2'', ''ttf'', ''eot'', ''otf'', ''mp4'', ''webm'',
      ''mp3'', ''wav'']"

text \<open>
  \<open>trimmed.split("@")[1] ?? ""\<close>: the second element of the split, the empty string when
  there is none.
\<close>

definition second_or_empty :: "string list \<Rightarrow> string" where
  "second_or_empty xs = (case xs of _ # y # _ \<Rightarrow> y | _ \<Rightarrow> [])"

text \<open>\<open>afterAt.split(".").pop() ?? ""\<close>: the last element, the empty string when there is none.\<close>

definition pop_or_empty :: "string list \<Rightarrow> string" where
  "pop_or_empty xs = (if xs = [] then [] else last xs)"

definition isLikelyEmail :: "string \<Rightarrow> bool" where
  "isLikelyEmail s =
     (let trimmed = toLowerCase (trim s) in
      if \<not> js_includes trimmed ''@'' then False
      else
        let afterAt = second_or_empty (js_split (CHR ''@'') trimmed);
            lastPart = pop_or_empty (js_split (CHR ''.'') afterAt)
        in lastPart \<notin> ASSET_EXTENSIONS)"

text \<open>
  The validation as the specification words it: lower-case the candidate (no trimming),
  require an \<open>@\<close>, and look at the final dot-separated segment of what follows the
  \<^emph>\<open>last\<close> \<open>@\<close>.
\<close>

definition afterLastAt :: "string \<Rightarrow> string" where
  "afterLastAt s = rev (takeWhile (\<lambda>c. c \<noteq> CHR ''@'') (rev s))"

definition isLikelyEmail_spec :: "string \<Rightarrow> bool" where
  "isLikelyEmail_spec s =
     (let lowered = toLowerCase s in
      if CHR ''@'' \<notin> set lowered then False
      else last (js_split (CHR ''.'') (afterLastAt lowered)) \<notin> ASSET_EXTENSIONS)"

section \<open>External libraries\<close>

text \<open>
  A thrown JavaScript value: an \<open>Error\<close> object with its message, or any other value.
\<close>

datatype exn = Error string | NonError

text \<open>
  What the source reads of a \<open>URL\<close> object of Node: \<open>u.protocol\<close> (with its colon),
  \<open>u.hostname\<close> and \<open>u.origin\<close>.
\<close>

record parsed_url =
  url_protocol :: string
  url_hostname :: string
  url_origin :: string

text \<open>The \<open>Response\<close> of \<open>fetch\<close>: \<open>res.ok\<close>, \<open>res.status\<close>, and what \<open>await res.text()\<close> gives.\<close>

record response =
  res_ok :: bool
  res_status :: nat
  res_text :: "exn + string"

text \<open>
  The libraries the scraper calls are parameters of the model, \<open>'w\<close> being the state of
  the outside world (servers, clock):
  \<^item> \<open>newURL s\<close> is \<open>new URL(s)\<close>, \<open>None\<close> when the constructor throws;
  \<^item> \<open>newURLBase href base\<close> is \<open>new URL(href, base).toString()\<close>, \<open>None\<close> when it throws;
  \<^item> \<open>fetch\<close> is the global \<open>fetch\<close> (redirects followed, abort signal included): it
    rejects or gives a response, and the world moves on;
  \<^item> \<open>anchors html\<close> lists, in document order, \<open>(attr("href"), text())\<close> of the elements
    that cheerio selects with \<open>a[href]\<close>;
  \<^item> \<open>mailtoHrefs html\<close> lists \<open>attr("href")\<close> of the elements selected with
    \<open>a[href^="mailto:"]\<close>;
  \<^item> \<open>textMatches html\<close> is \<open>$.text().match(EMAIL_REGEX)\<close>, the empty list for \<open>null\<close>.
\<close>

record 'w env =
  newURL :: "string \<Rightarrow> parsed_url option"
  newURLBase :: "string \<Rightarrow> string \<Rightarrow> string option"
  fetch :: "string \<Rightarrow> 'w \<Rightarrow> (exn + response) \<times> 'w"
  anchors :: "string \<Rightarrow> (string \<times> string) list"
  mailtoHrefs :: "string \<Rightarrow> string list"
  textMatches :: "string \<Rightarrow> string list"

text \<open>
  The network as one discovery sees it: the world, and the requests made so far with what
  \<open>fetchText\<close> got for each.
\<close>

record 'w net =
  world :: 'w
  fetched :: "(string \<times> (exn + string)) list"

text \<open>Truthiness of a \<open>string | null | undefined\<close> value.\<close>

definition truthy :: "string option \<Rightarrow> bool" where
  "truthy v = (case v of None \<Rightarrow> False | Some s \<Rightarrow> s \<noteq> [])"

section \<open>scraper.ts: origins\<close>

definition normalizeOrigin :: "(string \<Rightarrow> parsed_url option) \<Rightarrow> string \<Rightarrow> string" where
  "normalizeOrigin U rawUrl =
     (case U rawUrl of Some u \<Rightarrow> url_origin u | None \<Rightarrow> rawUrl)"

definition getMainDomainOrigin :: "(string \<Rightarrow> parsed_url option) \<Rightarrow> string \<Rightarrow> string option" where
  "getMainDomainOrigin U orig =
     (case U orig of
        None \<Rightarrow> None
      | Some u \<Rightarrow>
          let labels = js_split (CHR ''.'') (url_hostname u) in
          if length labels \<le> 2 then None
          else
            let mainHost = js_join ''.'' (drop 1 labels)
            in Some (url_protocol u @ ''//'' @ mainHost))"

definition originHasSubdomain :: "(string \<Rightarrow> parsed_url option) \<Rightarrow> string \<Rightarrow> bool" where
  "originHasSubdomain U orig =
     (case U orig of
        None \<Rightarrow> False
      | Some u \<Rightarrow> length (js_split (CHR ''.'') (url_hostname u)) > 2)"

definition resolveLink :: "'w env \<Rightarrow> string \<Rightarrow> string \<Rightarrow> string option" where
  "resolveLink E orig href = newURLBase E href orig"

text \<open>
  The hosts that the specification excludes from \<open>hasSubdomain\<close>: an IPv4 host is
  serialised by \<open>URL\<close> as four decimal numbers below 256 separated by dots, an IPv6 host
  in square brackets.
\<close>

definition digitValue :: "char \<Rightarrow> nat option" where
  "digitValue c = map_of (zip ''0123456789'' [0, 1, 2, 3, 4, 5, 6, 7, 8, 9]) c"

definition isDecimalByte :: "string \<Rightarrow> bool" where
  "isDecimalByte l =
     (l \<noteq> [] \<and> length l \<le> 3 \<and> list_all (\<lambda>c. digitValue c \<noteq> None) l \<and>
      foldl (\<lambda>n c. 10 * n + the (digitValue c)) 0 l < 256)"

definition isIPv4Host :: "string \<Rightarrow> bool" where
  "isIPv4Host h =
     (let labels = js_split (CHR ''.'') h
      in length labels = 4 \<and> list_all isDecimalByte labels)"

definition isIPv6Host :: "string \<Rightarrow> bool" where
  "isIPv6Host h = (h \<noteq> [] \<and> hd h = CHR ''['' \<and> last h = CHR '']'')"

definition hasSubdomain_spec :: "(string \<Rightarrow> parsed_url option) \<Rightarrow> string \<Rightarrow> bool" where
  "hasSubdomain_spec U orig =
     (case U orig of
        None \<Rightarrow> False
      | Some u \<Rightarrow>
          length (js_split (CHR ''.'') (url_hostname u)) > 2
          \<and> \<not> isIPv4Host (url_hostname u) \<and> \<not> isIPv6Host (url_hostname u))"

text \<open>
  The origin of an origin is that origin again, for every URL that parses: the property
  of the \<open>URL\<close> class that \<open>normalizeOrigin\<close> inherits.
\<close>

definition originStable :: "(string \<Rightarrow> parsed_url option) \<Rightarrow> bool" where
  "originStable U =
     (\<forall>s u. U s = Some u \<longrightarrow>
        (case U (url_origin u) of None \<Rightarrow> True | Some u' \<Rightarrow> url_origin u' = url_origin u))"

text \<open>What \<open>new URL\<close> answers on a few concrete inputs (everything else is left unparsed).\<close>

definition sampleURL :: "string \<Rightarrow> parsed_url option" where
  "sampleURL s =
     (if s = ''https://us.example.com'' \<or> s = ''https://us.example.com/login?next=1'' then
        Some \<lparr>url_protocol = ''https:'', url_hostname = ''us.example.com'',
              url_origin = ''https://us.example.com''\<rparr>
      else if s = ''https://a.b.example.com'' then
        Some \<lparr>url_protocol = ''https:'', url_hostname = ''a.b.example.com'',
              url_origin = ''https://a.b.example.com''\<rparr>
      else if s = ''https://example.com'' then
        Some \<lparr>url_protocol = ''https:'', url_hostname = ''example.com'',
              url_origin = ''https://example.com''\<rparr>
      else if s = ''http://192.168.1.1'' then
        Some \<lparr>url_protocol = ''http:'', url_hostname = ''192.168.1.1'',
              url_origin = ''http://192.168.1.1''\<rparr>
      else if s = ''http://[::1]:8080'' then
        Some \<lparr>url_protocol = ''http:'', url_hostname = ''[::1]'',
              url_origin = ''http://[::1]:8080''\<rparr>
      else None)"

section \<open>scraper.ts: fetching\<close>

fun digits :: "nat \<Rightarrow> string" where
  "digits n =
     (if n < 10 then [''0123456789'' ! n]
      else digits (n div 10) @ [''0123456789'' ! (n mod 10)])"

text \<open>
  \<open>fetchText\<close>: a rejected \<open>fetch\<close> and a failing \<open>res.text()\<close> propagate, a response that
  is not \<open>ok\<close> throws an \<open>Error\<close>. Every call is recorded with its URL and its outcome.
\<close>

definition fetchText :: "'w env \<Rightarrow> string \<Rightarrow> 'w net \<Rightarrow> (exn + string) \<times> 'w net" where
  "fetchText E u st =
     (case fetch E u (world st) of
        (r, w') \<Rightarrow>
          let out =
            (case r of
               Inl e \<Rightarrow> Inl e
             | Inr res \<Rightarrow>
                 if \<not> res_ok res
                 then Inl (Error (''HTTP '' @ digits (res_status res) @ '' for '' @ u))
                 else res_text res)
          in (out, \<lparr>world = w', fetched = fetched st @ [(u, out)]\<rparr>))"

section \<open>scraper.ts: content extraction\<close>

text \<open>A \<open>Set<string>\<close> is the list of its elements in insertion order.\<close>

definition set_add :: "string \<Rightarrow> string list \<Rightarrow> string list" where
  "set_add x xs = (if x \<in> set xs then xs else xs @ [x])"

text \<open>\<open>href.replace(/^mailto:/i, "")\<close>.\<close>

definition stripMailto :: "string \<Rightarrow> string" where
  "stripMailto href =
     (if toLowerCase (take 7 href) = ''mailto:'' then drop 7 href else href)"

definition collectMailto :: "string list \<Rightarrow> string \<Rightarrow> string list" where
  "collectMailto ems href =
     (if href = [] then ems
      else
        let email = trim (hd (js_split (CHR ''?'') (stripMailto href)))
        in if email = [] \<or> \<not> isLikelyEmail email then ems else set_add email ems)"

definition collectEmailsFromHtml :: "'w env \<Rightarrow> string \<Rightarrow> string list \<Rightarrow> string list" where
  "collectEmailsFromHtml E html ems =
     (let ems1 = foldl collectMailto ems (mailtoHrefs E html)
      in foldl (\<lambda>acc m. if isLikelyEmail m then set_add m acc else acc) ems1
           (textMatches E html))"

text \<open>The callback of \<open>$("a[href]").each\<close> in \<open>findPrivacyLink\<close>, acting on \<open>found\<close>.\<close>

definition privacyStep :: "'w env \<Rightarrow> string \<Rightarrow> string option \<Rightarrow> string \<times> string \<Rightarrow> string option" where
  "privacyStep E orig found a =
     (if truthy found then found
      else
        let href = fst a; txt = toLowerCase (snd a); hrefLower = toLowerCase href
        in if js_includes txt ''privacy'' \<or> js_includes hrefLower ''privacy''
           then
             (let resolved = resolveLink E orig href
              in if truthy resolved then resolved else found)
           else found)"

definition findPrivacyLink :: "'w env \<Rightarrow> string \<Rightarrow> string \<Rightarrow> string option" where
  "findPrivacyLink E html orig = foldl (privacyStep E orig) None (anchors E html)"

text \<open>
  The same function as the specification words it: the first anchor whose text or href
  contains "privacy" decides, whatever its resolution gives.
\<close>

definition mentionsPrivacy :: "string \<times> string \<Rightarrow> bool" where
  "mentionsPrivacy a =
     (js_includes (toLowerCase (snd a)) ''privacy'' \<or> js_includes (toLowerCase (fst a)) ''privacy'')"

definition findPrivacyLink_spec :: "'w env \<Rightarrow> string \<Rightarrow> string \<Rightarrow> string option" where
  "findPrivacyLink_spec E html orig =
     (case find mentionsPrivacy (anchors E html) of
        None \<Rightarrow> None
      | Some a \<Rightarrow> resolveLink E orig (fst a))"

text \<open>An anchor that can decide \<open>findPrivacyLink\<close>: it mentions privacy and its href resolves.\<close>

definition resolvable :: "'w env \<Rightarrow> string \<Rightarrow> string \<times> string \<Rightarrow> bool" where
  "resolvable E orig a = (mentionsPrivacy a \<and> truthy (resolveLink E orig (fst a)))"

text \<open>\<open>origin.replace(/\/+$/, "")\<close>.\<close>

definition stripTrailingSlashes :: "string \<Rightarrow> string" where
  "stripTrailingSlashes s = rev (dropWhile (\<lambda>c. c = CHR ''/'') (rev s))"

definition buildPrivacyCandidates :: "string \<Rightarrow> string list" where
  "buildPrivacyCandidates orig =
     (let suffixes =
        [''/privacy'', ''/privacy-policy'', ''/privacy_policy'', ''/legal/privacy'',
         ''/policies/privacy'']
      in map (\<lambda>s. stripTrailingSlashes orig @ s) suffixes)"

section \<open>scraper.ts: discovery\<close>

record ScrapeResult =
  privacyUrl :: "string option"
  emails :: "string list"

text \<open>
  The \<open>for\<close> loop of \<open>scrapeOrigin\<close> over the candidates, acting on \<open>privacyUrl\<close> and
  \<open>emails\<close>: the first candidate fetched with success ends the loop.
\<close>

fun tryCandidates ::
  "'w env \<Rightarrow> string list \<Rightarrow> string option \<times> string list \<Rightarrow> 'w net
     \<Rightarrow> (string option \<times> string list) \<times> 'w net" where
  "tryCandidates E [] acc st = (acc, st)"
| "tryCandidates E (candidate # rest) acc st =
     (case fetchText E candidate st of
        (Inr html, st') \<Rightarrow> ((Some candidate, collectEmailsFromHtml E html (snd acc)), st')
      | (Inl e, st') \<Rightarrow> tryCandidates E rest acc st')"

text \<open>
  The first part of \<open>scrapeOrigin\<close>, on the outcome \<open>home\<close> of fetching the home page: the
  values of \<open>privacyUrl\<close> and \<open>emails\<close> before the \<open>if (!privacyUrl)\<close>.
\<close>

definition scanHomepage ::
  "'w env \<Rightarrow> string \<Rightarrow> exn + string \<Rightarrow> string option \<times> string list" where
  "scanHomepage E orig home =
     (let homepageHtml = (case home of Inr h \<Rightarrow> Some h | Inl e \<Rightarrow> None)
      in if truthy homepageHtml
         then (findPrivacyLink E (the homepageHtml) orig,
               collectEmailsFromHtml E (the homepageHtml) [])
         else (None, []))"

definition scrapeOrigin :: "'w env \<Rightarrow> string \<Rightarrow> 'w net \<Rightarrow> ScrapeResult \<times> 'w net" where
  "scrapeOrigin E orig st =
     (case fetchText E orig st of
        (home, st1) \<Rightarrow>
          let acc0 = scanHomepage E orig home
          in
            if \<not> truthy (fst acc0) then
              (case tryCandidates E (buildPrivacyCandidates orig) acc0 st1 of
                 (acc, st2) \<Rightarrow> (\<lparr>privacyUrl = fst acc, emails = snd acc\<rparr>, st2))
            else
              (case fetchText E (the (fst acc0)) st1 of
                 (Inr html, st2) \<Rightarrow>
                   (\<lparr>privacyUrl = fst acc0,
                     emails = collectEmailsFromHtml E html (snd acc0)\<rparr>, st2)
               | (Inl e, st2) \<Rightarrow> (\<lparr>privacyUrl = fst acc0, emails = snd acc0\<rparr>, st2)))"

text \<open>\<open>[...new Set(xs)]\<close>: duplicates dropped, first occurrences kept in order.\<close>

definition uniq :: "string list \<Rightarrow> string list" where
  "uniq xs = foldl (\<lambda>acc x. set_add x acc) [] xs"

text \<open>
  The body of \<open>findPrivacyPolicyAndEmails\<close>, over any behaviour \<open>scrape\<close> of the two awaited
  \<open>scrapeOrigin\<close> calls (each returns a result or throws) and any state \<open>'s\<close> they act on.
  The result is \<open>Inr\<close> when the function returns and \<open>Inl\<close> when it throws.
\<close>

definition findPrivacyPolicyAndEmailsWith ::
  "(string \<Rightarrow> 's \<Rightarrow> (exn + ScrapeResult) \<times> 's) \<Rightarrow> (string \<Rightarrow> parsed_url option)
     \<Rightarrow> string \<Rightarrow> 's \<Rightarrow> (exn + ScrapeResult) \<times> 's" where
  "findPrivacyPolicyAndEmailsWith scrape U rawUrl st =
     (let orig = normalizeOrigin U rawUrl in
      case scrape orig st of
        (r1, st1) \<Rightarrow>
          let result =
                (case r1 of
                   Inr r \<Rightarrow> r
                 | Inl e \<Rightarrow> \<lparr>privacyUrl = None, emails = []\<rparr>);
              shouldTryMainDomain =
                (\<not> truthy (privacyUrl result) \<and> length (emails result) = 0
                 \<and> originHasSubdomain U orig)
          in
            if shouldTryMainDomain then
              (let mainOrigin = getMainDomainOrigin U orig in
               if truthy mainOrigin then
                 (case scrape (the mainOrigin) st1 of
                    (Inr mainResult, st2) \<Rightarrow>
                      (Inr \<lparr>privacyUrl =
                              (case privacyUrl mainResult of
                                 Some p \<Rightarrow> Some p
                               | None \<Rightarrow> privacyUrl result),
                            emails = uniq (emails result @ emails mainResult)\<rparr>, st2)
                  | (Inl e, st2) \<Rightarrow> (Inr result, st2))
               else (Inr result, st1))
            else (Inr result, st1))"

definition findPrivacyPolicyAndEmails ::
  "'w env \<Rightarrow> string \<Rightarrow> 'w net \<Rightarrow> (exn + ScrapeResult) \<times> 'w net" where
  "findPrivacyPolicyAndEmails E rawUrl st =
     findPrivacyPolicyAndEmailsWith
       (\<lambda>orig s. case scrapeOrigin E orig s of (r, s') \<Rightarrow> (Inr r, s'))
       (newURL E) rawUrl st"

section \<open>server.ts: entries and their store\<close>

text \<open>
  A row of the entry table. The column \<open>scrapedEmails\<close> holds \<open>JSON.stringify(emails)\<close>
  in the source; the model keeps the list that this text encodes. The two timestamps
  are left out.
\<close>

record Entry =
  entryId :: int
  siteName :: "string option"
  url :: string
  username :: "string option"
  sourceEmail :: "string option"
  scrapedEmails :: "string list option"
  entryPrivacyUrl :: "string option"
  status :: string
  errorMessage :: "string option"

record ApiEntry =
  apiId :: int
  apiSiteName :: "string option"
  apiUrl :: string
  apiUsername :: "string option"
  apiSourceEmail :: "string option"
  apiScrapedEmails :: "string list"
  apiPrivacyUrl :: "string option"
  apiStatus :: string
  apiErrorMessage :: "string option"

definition mapRow :: "Entry \<Rightarrow> ApiEntry" where
  "mapRow row =
     \<lparr>apiId = entryId row, apiSiteName = siteName row, apiUrl = url row,
      apiUsername = username row, apiSourceEmail = sourceEmail row,
      apiScrapedEmails = (case scrapedEmails row of Some l \<Rightarrow> l | None \<Rightarrow> []),
      apiPrivacyUrl = entryPrivacyUrl row, apiStatus = status row,
      apiErrorMessage = errorMessage row\<rparr>"

text \<open>
  The \<open>data\<close> object of \<open>db.entry.update\<close>: \<open>None\<close> is a field that is not supplied, and
  only supplied fields change.
\<close>

record EntryUpdate =
  dataStatus :: "string option"
  dataErrorMessage :: "string option option"
  dataPrivacyUrl :: "string option option"
  dataScrapedEmails :: "string list option"

definition applyUpdate :: "EntryUpdate \<Rightarrow> Entry \<Rightarrow> Entry" where
  "applyUpdate d row =
     row\<lparr>status := (case dataStatus d of Some v \<Rightarrow> v | None \<Rightarrow> status row),
         errorMessage := (case dataErrorMessage d of Some v \<Rightarrow> v | None \<Rightarrow> errorMessage row),
         entryPrivacyUrl :=
           (case dataPrivacyUrl d of Some v \<Rightarrow> v | None \<Rightarrow> entryPrivacyUrl row),
         scrapedEmails :=
           (case dataScrapedEmails d of Some v \<Rightarrow> Some v | None \<Rightarrow> scrapedEmails row)\<rparr>"

text \<open>
  The server's state: the table, the updates written so far, and the outside world.
\<close>

record 'w sys =
  db :: "int \<Rightarrow> Entry option"
  writes :: "(int \<times> EntryUpdate) list"
  outer :: 'w

text \<open>
  What the server calls: \<open>discover\<close> is the awaited \<open>findPrivacyPolicyAndEmails\<close>, and
  \<open>storeFault\<close> says, at each call of the store, whether the store fails there (a lost
  connection, say) and with which exception.
\<close>

record 'w server_env =
  discover :: "string \<Rightarrow> 'w \<Rightarrow> (exn + ScrapeResult) \<times> 'w"
  storeFault :: "'w \<Rightarrow> exn option \<times> 'w"

definition findUnique :: "'w server_env \<Rightarrow> int \<Rightarrow> 'w sys \<Rightarrow> (exn + Entry option) \<times> 'w sys" where
  "findUnique S i s =
     (case storeFault S (outer s) of
        (Some e, w') \<Rightarrow> (Inl e, s\<lparr>outer := w'\<rparr>)
      | (None, w') \<Rightarrow> (Inr (db s i), s\<lparr>outer := w'\<rparr>))"

text \<open>\<open>db.entry.update\<close> throws when the row does not exist (Prisma's error P2025).\<close>

definition update :: "'w server_env \<Rightarrow> int \<Rightarrow> EntryUpdate \<Rightarrow> 'w sys \<Rightarrow> (exn + unit) \<times> 'w sys" where
  "update S i d s =
     (case storeFault S (outer s) of
        (Some e, w') \<Rightarrow> (Inl e, s\<lparr>outer := w'\<rparr>)
      | (None, w') \<Rightarrow>
          (case db s i of
             None \<Rightarrow> (Inl (Error ''P2025''), s\<lparr>outer := w'\<rparr>)
           | Some row \<Rightarrow>
               (Inr (),
                s\<lparr>db := (db s)(i \<mapsto> applyUpdate d row),
                  writes := writes s @ [(i, d)], outer := w'\<rparr>)))"

section \<open>server.ts: one entry\<close>

definition dataInProgress :: EntryUpdate where
  "dataInProgress =
     \<lparr>dataStatus = Some ''in_progress'', dataErrorMessage = Some None,
      dataPrivacyUrl = None, dataScrapedEmails = None\<rparr>"

definition dataNoResults :: EntryUpdate where
  "dataNoResults =
     \<lparr>dataStatus = Some ''no_results'', dataErrorMessage = None,
      dataPrivacyUrl = None, dataScrapedEmails = None\<rparr>"

definition dataDone :: "string option \<Rightarrow> string list \<Rightarrow> EntryUpdate" where
  "dataDone p ems =
     \<lparr>dataStatus = Some ''done'', dataErrorMessage = Some None,
      dataPrivacyUrl = Some p, dataScrapedEmails = Some ems\<rparr>"

definition dataError :: "string \<Rightarrow> EntryUpdate" where
  "dataError message =
     \<lparr>dataStatus = Some ''error'', dataErrorMessage = Some (Some message),
      dataPrivacyUrl = None, dataScrapedEmails = None\<rparr>"

text \<open>The \<open>try\<close> block of \<open>scrapeEntry\<close>: \<open>Inl\<close> is the exception that leaves it.\<close>

definition scrapeTry :: "'w server_env \<Rightarrow> int \<Rightarrow> Entry \<Rightarrow> 'w sys \<Rightarrow> (exn + unit) \<times> 'w sys" where
  "scrapeTry S i existing s =
     (case discover S (url existing) (outer s) of
        (Inl err, w') \<Rightarrow> (Inl err, s\<lparr>outer := w'\<rparr>)
      | (Inr r, w') \<Rightarrow>
          if \<not> truthy (privacyUrl r) \<and> length (emails r) = 0
          then update S i dataNoResults (s\<lparr>outer := w'\<rparr>)
          else update S i (dataDone (privacyUrl r) (emails r)) (s\<lparr>outer := w'\<rparr>))"

text \<open>The \<open>catch\<close> block.\<close>

definition scrapeCatch :: "'w server_env \<Rightarrow> int \<Rightarrow> exn \<Rightarrow> 'w sys \<Rightarrow> (exn + unit) \<times> 'w sys" where
  "scrapeCatch S i err s =
     (let message = (case err of Error m \<Rightarrow> take 500 m | NonError \<Rightarrow> ''Unknown error'')
      in update S i (dataError message) s)"

definition scrapeEntry :: "'w server_env \<Rightarrow> int \<Rightarrow> 'w sys \<Rightarrow> (exn + ApiEntry) \<times> 'w sys" where
  "scrapeEntry S i s =
     (case findUnique S i s of
        (Inl e, s1) \<Rightarrow> (Inl e, s1)
      | (Inr None, s1) \<Rightarrow> (Inl (Error ''Entry not found''), s1)
      | (Inr (Some existing), s1) \<Rightarrow>
          (case update S i dataInProgress s1 of
             (Inl e, s2) \<Rightarrow> (Inl e, s2)
           | (Inr u, s2) \<Rightarrow>
               (case
                  (case scrapeTry S i existing s2 of
                     (Inl err, s3) \<Rightarrow> scrapeCatch S i err s3
                   | (Inr u', s3) \<Rightarrow> (Inr (), s3))
                of
                  (Inl e, s4) \<Rightarrow> (Inl e, s4)
                | (Inr u'', s4) \<Rightarrow>
                    (case findUnique S i s4 of
                       (Inl e, s5) \<Rightarrow> (Inl e, s5)
                     | (Inr None, s5) \<Rightarrow> (Inl (Error ''Entry disappeared''), s5)
                     | (Inr (Some updated), s5) \<Rightarrow> (Inr (mapRow updated), s5)))))"

section \<open>server.ts: the batch scheduler\<close>

text \<open>
  The closure state of \<open>processScrapeQueue\<close>: the variables \<open>queue\<close> and \<open>activeCount\<close>, the
  number of calls of \<open>resolve\<close> (the \<open>return\<close> for an empty list counts as one: it fulfils
  the promise of the \<open>async\<close> function), and, for the statement of properties, the
  \<open>scrapeEntry\<close> promises that are pending (\<open>inflight\<close>), the ids in the order they were
  started, and the ids in the order they finished.
\<close>

record sched =
  queue :: "int list"
  activeCount :: int
  resolved :: nat
  inflight :: "int list"
  started :: "int list"
  finished :: "int list"

text \<open>The \<open>while\<close> loop of \<open>processNext\<close>.\<close>

function startLoop :: "int \<Rightarrow> sched \<Rightarrow> sched" where
  "startLoop concurrency s =
     (if activeCount s < concurrency \<and> length (queue s) > 0 then
        startLoop concurrency
          (s\<lparr>queue := tl (queue s),
             activeCount := activeCount s + 1,
             inflight := inflight s @ [hd (queue s)],
             started := started s @ [hd (queue s)]\<rparr>)
      else s)"
  by pat_completeness auto
termination
  by (relation "measure (\<lambda>(c, s). length (queue s))") auto

declare startLoop.simps [simp del]

definition resolve :: "sched \<Rightarrow> sched" where
  "resolve s = s\<lparr>resolved := resolved s + 1\<rparr>"

definition processNext :: "int \<Rightarrow> sched \<Rightarrow> sched" where
  "processNext concurrency s =
     (let s' = startLoop concurrency s
      in if activeCount s' = 0 \<and> length (queue s') = 0 then resolve s' else s')"

text \<open>
  The \<open>finally\<close> callback of the task of id \<open>i\<close>; it runs when that \<open>scrapeEntry\<close> promise
  settles, fulfilled or rejected.
\<close>

definition onFinally :: "int \<Rightarrow> int \<Rightarrow> sched \<Rightarrow> sched" where
  "onFinally concurrency i s =
     (let s1 = s\<lparr>activeCount := activeCount s - 1,
                 inflight := remove1 i (inflight s),
                 finished := finished s @ [i]\<rparr>
      in if length (queue s1) > 0 then processNext concurrency s1
         else if activeCount s1 = 0 then resolve s1
         else s1)"

text \<open>The state when the call \<open>processScrapeQueue(entryIds, concurrency)\<close> returns its promise.\<close>

definition processScrapeQueue :: "int list \<Rightarrow> int \<Rightarrow> sched" where
  "processScrapeQueue entryIds concurrency =
     (if length entryIds = 0 then
        \<lparr>queue = [], activeCount = 0, resolved = 1, inflight = [], started = [],
         finished = []\<rparr>
      else
        processNext concurrency
          \<lparr>queue = entryIds, activeCount = 0, resolved = 0, inflight = [], started = [],
           finished = []\<rparr>)"

text \<open>
  The states the scheduler goes through: after the call, each step is the settling of
  one pending task, in any order.
\<close>

inductive reachable :: "int list \<Rightarrow> int \<Rightarrow> sched \<Rightarrow> bool" for entryIds concurrency where
  init: "reachable entryIds concurrency (processScrapeQueue entryIds concurrency)"
| settle: "reachable entryIds concurrency s \<Longrightarrow> i \<in> set (inflight s)
     \<Longrightarrow> reachable entryIds concurrency (onFinally concurrency i s)"

text \<open>
  What holds of the scheduler's state between two callbacks, for the ids \<open>entryIds\<close> and
  the ceiling \<open>concurrency\<close>: the counter counts the pending tasks; the ids started so far
  followed by the queue are the ids supplied; a started id is pending or finished; the
  ceiling is respected, and reached as long as ids are queued; \<open>resolve\<close> has been called
  once when nothing is queued or pending, and not at all before.
\<close>

definition schedInv :: "int list \<Rightarrow> int \<Rightarrow> sched \<Rightarrow> bool" where
  "schedInv entryIds concurrency s =
     (activeCount s = int (length (inflight s))
      \<and> started s @ queue s = entryIds
      \<and> mset (finished s) + mset (inflight s) = mset (started s)
      \<and> activeCount s \<le> concurrency
      \<and> (queue s \<noteq> [] \<longrightarrow> activeCount s = concurrency)
      \<and> resolved s = (if queue s = [] \<and> inflight s = [] then 1 else 0))"




section \<open>A sample site\<close>

text \<open>
  A concrete environment for instances of the theorems: the site \<open>https://example.com\<close>,
  whose home page links no privacy page and which serves one only at \<open>/privacy-policy\<close>;
  the world counts the requests made.
\<close>

definition sampleHome :: string where
  "sampleHome = ''<a href=/about>About us</a> write to info@example.com''"

definition samplePolicy :: string where
  "samplePolicy = ''<a href=mailto:privacy@example.com?subject=hi>Contact</a> <img src=icon@3x.png>''"

definition sampleLinks :: string where
  "sampleLinks = ''<a href=http://>Privacy</a><a href=/legal>Privacy Policy</a>''"

definition sampleFetch :: "string \<Rightarrow> nat \<Rightarrow> (exn + response) \<times> nat" where
  "sampleFetch u w =
     (if u = ''https://example.com'' then
        (Inr \<lparr>res_ok = True, res_status = 200, res_text = Inr sampleHome\<rparr>, Suc w)
      else if u = ''https://example.com/privacy-policy'' then
        (Inr \<lparr>res_ok = True, res_status = 200, res_text = Inr samplePolicy\<rparr>, Suc w)
      else if u = ''https://example.com/privacy'' then
        (Inr \<lparr>res_ok = False, res_status = 404, res_text = Inr []\<rparr>, Suc w)
      else (Inl (Error ''fetch failed''), Suc w))"

definition sampleResolve :: "string \<Rightarrow> string \<Rightarrow> string option" where
  "sampleResolve href base =
     (if base = ''https://example.com'' \<and> (href = ''/legal'' \<or> href = ''/about'')
      then Some (base @ href) else None)"

definition sampleAnchors :: "string \<Rightarrow> (string \<times> string) list" where
  "sampleAnchors html =
     (if html = sampleHome then [(''/about'', ''About us'')]
      else if html = samplePolicy then [(''mailto:privacy@example.com?subject=hi'', ''Contact'')]
      else if html = sampleLinks then [(''http://'', ''Privacy''), (''/legal'', ''Privacy Policy'')]
      else [])"

definition sampleMailtoHrefs :: "string \<Rightarrow> string list" where
  "sampleMailtoHrefs html =
     (if html = samplePolicy then [''mailto:privacy@example.com?subject=hi''] else [])"

definition sampleTextMatches :: "string \<Rightarrow> string list" where
  "sampleTextMatches html =
     (if html = sampleHome then [''info@example.com'']
      else if html = samplePolicy then [''icon@3x.png'']
      else [])"

definition sampleEnv :: "nat env" where
  "sampleEnv =
     \<lparr>newURL = sampleURL, newURLBase = sampleResolve, fetch = sampleFetch,
      anchors = sampleAnchors, mailtoHrefs = sampleMailtoHrefs,
      textMatches = sampleTextMatches\<rparr>"

text \<open>
  Two behaviours of \<open>scrapeOrigin\<close> for instances: every call throws, or (with the flag
  off) the call on the subdomain returns an empty result and the call on the parent
  domain throws. The state counts the calls.
\<close>

definition sampleScrape :: "bool \<Rightarrow> string \<Rightarrow> nat \<Rightarrow> (exn + ScrapeResult) \<times> nat" where
  "sampleScrape firstThrows orig n =
     (if orig = ''https://us.example.com'' \<and> \<not> firstThrows
      then (Inr \<lparr>privacyUrl = None, emails = []\<rparr>, Suc n)
      else (Inl (Error ''stack overflow''), Suc n))"

section \<open>A sample table\<close>

text \<open>
  Three entries: one whose discovery finds a policy page, one that was scraped with
  success before and whose discovery now finds nothing, and one whose discovery throws an
  error with a message of 600 characters. The world counts the calls of the store and of
  the discovery; the store fails at the call numbered \<open>faultAt\<close>, if any.
\<close>

definition entryExample :: Entry where
  "entryExample =
     \<lparr>entryId = 7, siteName = Some ''Example'', url = ''https://example.com'',
      username = None, sourceEmail = None, scrapedEmails = None,
      entryPrivacyUrl = None, status = ''error'', errorMessage = Some ''HTTP 500''\<rparr>"

definition entryGone :: Entry where
  "entryGone =
     \<lparr>entryId = 8, siteName = None, url = ''https://gone.example'',
      username = Some ''kim'', sourceEmail = None,
      scrapedEmails = Some [''old@gone.example''],
      entryPrivacyUrl = Some ''https://gone.example/privacy'', status = ''done'',
      errorMessage = None\<rparr>"

definition entryDown :: Entry where
  "entryDown =
     \<lparr>entryId = 9, siteName = None, url = ''https://down.example'',
      username = None, sourceEmail = None, scrapedEmails = None,
      entryPrivacyUrl = None, status = ''pending'', errorMessage = None\<rparr>"

definition sampleRows :: "int \<Rightarrow> Entry option" where
  "sampleRows i =
     (if i = 7 then Some entryExample
      else if i = 8 then Some entryGone
      else if i = 9 then Some entryDown
      else None)"

definition sampleDiscover :: "string \<Rightarrow> nat \<Rightarrow> (exn + ScrapeResult) \<times> nat" where
  "sampleDiscover u w =
     (if u = ''https://example.com'' then
        (Inr \<lparr>privacyUrl = Some ''https://example.com/privacy-policy'',
              emails = [''privacy@example.com'']\<rparr>, Suc w)
      else if u = ''https://gone.example'' then
        (Inr \<lparr>privacyUrl = None, emails = []\<rparr>, Suc w)
      else (Inl (Error (replicate 600 (CHR ''x''))), Suc w))"

definition sampleServer :: "nat option \<Rightarrow> nat server_env" where
  "sampleServer faultAt =
     \<lparr>discover = sampleDiscover,
      storeFault =
        (\<lambda>w. (if faultAt = Some w then Some (Error ''database is locked'') else None, Suc w))\<rparr>"

definition sampleSys :: "nat sys" where
  "sampleSys = \<lparr>db = sampleRows, writes = [], outer = 0\<rparr>"

section \<open>Properties of the string helpers\<close>

lemma js_includes_single: "js_includes s [c] = (c \<in> set s)"
  by (induction s) auto

lemma js_split_nonempty: "js_split sep s \<noteq> []"
  by (induction s) (auto split: list.splits)

lemma js_split_no_sep: "sep \<notin> set b \<Longrightarrow> js_split sep b = [b]"
  by (induction b) auto

lemma js_split_append: "sep \<notin> set a \<Longrightarrow> js_split sep (a @ sep # r) = a # js_split sep r"
  by (induction a) auto

lemma js_split_second:
  assumes "sep \<notin> set a" "sep \<notin> set b" "r = [] \<or> hd r = sep"
  shows "second_or_empty (js_split sep (a @ sep # b @ r)) = b"
proof (cases r)
  case Nil
  then show ?thesis
    using assms by (simp add: js_split_append js_split_no_sep second_or_empty_def)
next
  case (Cons x r')
  then have "x = sep" using assms by simp
  then show ?thesis
    using assms Cons by (simp add: js_split_append second_or_empty_def)
qed

lemma js_join_split: "js_join [sep] (js_split sep s) = s"
proof (induction s)
  case Nil
  then show ?case by simp
next
  case (Cons c s)
  obtain x xs where sp: "js_split sep s = x # xs"
    using js_split_nonempty by (cases "js_split sep s") auto
  show ?case
  proof (cases "c = sep")
    case True
    then show ?thesis using Cons sp by simp
  next
    case False
    then show ?thesis using Cons sp by (cases xs) auto
  qed
qed

lemma js_split_hd_no_sep: "sep \<notin> set (hd (js_split sep s))"
  by (induction s) (auto split: list.splits)

lemma js_split_decompose:
  assumes "length (js_split sep s) > 1"
  shows "s = hd (js_split sep s) @ [sep] @ js_join [sep] (tl (js_split sep s))"
proof -
  obtain x y ys where sp: "js_split sep s = x # y # ys"
    using assms by (cases "js_split sep s"; cases "tl (js_split sep s)") auto
  have "js_join [sep] (js_split sep s) = s" by (rule js_join_split)
  then show ?thesis using sp by simp
qed

section \<open>isLikelyEmail\<close>

text \<open>
  Claim C2, as the code has it. \<open>isLikelyEmail s\<close> trims and lower-cases \<open>s\<close>; it is false
  when the outcome holds no \<open>@\<close>; otherwise it looks at the text between the first \<open>@\<close> and
  the next one (or the end), not at what follows the last \<open>@\<close>, and is false exactly when
  the final dot-separated segment of that text is one of the asset extensions. On the
  three examples of the specification it gives false, true and true.
\<close>

theorem isLikelyEmail_first_at_segment:
  "(CHR ''@'' \<notin> set (toLowerCase (trim s)) \<longrightarrow> \<not> isLikelyEmail s)
   \<and> (toLowerCase (trim s) = a @ ''@'' @ b @ r \<and> CHR ''@'' \<notin> set a \<and> CHR ''@'' \<notin> set b
        \<and> (r = [] \<or> hd r = CHR ''@'')
      \<longrightarrow> isLikelyEmail s = (last (js_split (CHR ''.'') b) \<notin> ASSET_EXTENSIONS))
   \<and> \<not> isLikelyEmail ''icon@3x.png''
   \<and> isLikelyEmail ''privacy@example.com''
   \<and> isLikelyEmail ''PRIVACY@EXAMPLE.COM''"
proof (intro conjI impI)
  show "\<not> isLikelyEmail s" if "CHR ''@'' \<notin> set (toLowerCase (trim s))"
    using that by (simp add: isLikelyEmail_def js_includes_single)
next
  assume h: "toLowerCase (trim s) = a @ ''@'' @ b @ r \<and> CHR ''@'' \<notin> set a
      \<and> CHR ''@'' \<notin> set b \<and> (r = [] \<or> hd r = CHR ''@'')"
  then have sec: "second_or_empty (js_split (CHR ''@'') (toLowerCase (trim s))) = b"
    using js_split_second [of "CHR ''@''" a b r] by simp
  have inc: "js_includes (toLowerCase (trim s)) ''@''"
    using h by (simp add: js_includes_single)
  show "isLikelyEmail s = (last (js_split (CHR ''.'') b) \<notin> ASSET_EXTENSIONS)"
    using sec inc by (simp add: isLikelyEmail_def pop_or_empty_def js_split_nonempty)
next
  show "\<not> isLikelyEmail ''icon@3x.png''" by code_simp
next
  show "isLikelyEmail ''privacy@example.com''" by code_simp
next
  show "isLikelyEmail ''PRIVACY@EXAMPLE.COM''" by code_simp
qed

text \<open>
  An instance with two \<open>@\<close>: the segment that decides is \<open>2x.png\<close>, between the first \<open>@\<close>
  and the second, so the candidate is rejected.
\<close>

theorem isLikelyEmail_first_at_segment_witness:
  "toLowerCase (trim ''Logo@2x.PNG@cdn.example.com '')
     = ''logo'' @ ''@'' @ ''2x.png'' @ ''@cdn.example.com''
   \<and> isLikelyEmail ''Logo@2x.PNG@cdn.example.com ''
     = (last (js_split (CHR ''.'') ''2x.png'') \<notin> ASSET_EXTENSIONS)
   \<and> \<not> isLikelyEmail ''Logo@2x.PNG@cdn.example.com ''"
proof -
  have e: "toLowerCase (trim ''Logo@2x.PNG@cdn.example.com '')
      = ''logo'' @ ''@'' @ ''2x.png'' @ ''@cdn.example.com''"
    by code_simp
  have n: "CHR ''@'' \<notin> set ''logo'' \<and> CHR ''@'' \<notin> set ''2x.png''
       \<and> (''@cdn.example.com'' = [] \<or> hd ''@cdn.example.com'' = CHR ''@'')"
    by simp
  have v: "\<not> (last (js_split (CHR ''.'') ''2x.png'') \<notin> ASSET_EXTENSIONS)"
    by code_simp
  from isLikelyEmail_first_at_segment
    [of "''Logo@2x.PNG@cdn.example.com ''" "''logo''" "''2x.png''" "''@cdn.example.com''"]
  have "isLikelyEmail ''Logo@2x.PNG@cdn.example.com ''
      = (last (js_split (CHR ''.'') ''2x.png'') \<notin> ASSET_EXTENSIONS)"
    using e n by blast
  then show ?thesis using e v by blast
qed

text \<open>
  Claim C2 as stated fails: with the text after the last \<open>@\<close> (\<open>c.com\<close>) the candidate
  \<open>a@b.png@c.com\<close> would pass, and the code rejects it (it reads \<open>b.png\<close>).
\<close>

theorem isLikelyEmail_last_at_counterexample:
  "\<not> isLikelyEmail ''a@b.png@c.com'' \<and> isLikelyEmail_spec ''a@b.png@c.com''"
proof
  show "\<not> isLikelyEmail ''a@b.png@c.com''" by code_simp
  show "isLikelyEmail_spec ''a@b.png@c.com''" by code_simp
qed

section \<open>Origins\<close>

text \<open>
  Claim C7, as the code has it. \<open>originHasSubdomain\<close> is true if and only if the origin
  parses and its hostname has more than two dot-separated labels. There is no test for IP
  addresses: an IPv4 host, four labels, always counts as having a subdomain; an IPv6 host,
  which \<open>URL\<close> writes in brackets without dots, never does. It is true for
  \<open>https://a.b.example.com\<close> and false for \<open>https://example.com\<close>.
\<close>

theorem originHasSubdomain_counts_labels:
  "(originHasSubdomain U orig
      \<longleftrightarrow> (\<exists>u. U orig = Some u \<and> length (js_split (CHR ''.'') (url_hostname u)) > 2))
   \<and> (U orig = Some u \<and> isIPv4Host (url_hostname u) \<longrightarrow> originHasSubdomain U orig)
   \<and> (U orig = Some u \<and> isIPv6Host (url_hostname u) \<and> CHR ''.'' \<notin> set (url_hostname u)
        \<longrightarrow> \<not> originHasSubdomain U orig)
   \<and> originHasSubdomain sampleURL ''https://a.b.example.com''
   \<and> \<not> originHasSubdomain sampleURL ''https://example.com''"
proof (intro conjI impI)
  show "originHasSubdomain U orig
      \<longleftrightarrow> (\<exists>u. U orig = Some u \<and> length (js_split (CHR ''.'') (url_hostname u)) > 2)"
    by (cases "U orig") (simp_all add: originHasSubdomain_def)
next
  assume "U orig = Some u \<and> isIPv4Host (url_hostname u)"
  then show "originHasSubdomain U orig"
    by (simp add: originHasSubdomain_def isIPv4Host_def Let_def)
next
  assume h: "U orig = Some u \<and> isIPv6Host (url_hostname u) \<and> CHR ''.'' \<notin> set (url_hostname u)"
  then have "js_split (CHR ''.'') (url_hostname u) = [url_hostname u]"
    by (simp add: js_split_no_sep)
  then show "\<not> originHasSubdomain U orig"
    using h by (simp add: originHasSubdomain_def)
next
  show "originHasSubdomain sampleURL ''https://a.b.example.com''"
    by (simp add: originHasSubdomain_def sampleURL_def)
next
  show "\<not> originHasSubdomain sampleURL ''https://example.com''"
    by (simp add: originHasSubdomain_def sampleURL_def)
qed

text \<open>
  The IPv4 origin \<open>http://192.168.1.1\<close> has a subdomain for the code; the IPv6 origin
  \<open>http://[::1]:8080\<close> has none.
\<close>

theorem originHasSubdomain_counts_labels_witness:
  "sampleURL ''http://192.168.1.1''
     = Some \<lparr>url_protocol = ''http:'', url_hostname = ''192.168.1.1'',
             url_origin = ''http://192.168.1.1''\<rparr>
   \<and> isIPv4Host ''192.168.1.1''
   \<and> originHasSubdomain sampleURL ''http://192.168.1.1''
   \<and> sampleURL ''http://[::1]:8080''
     = Some \<lparr>url_protocol = ''http:'', url_hostname = ''[::1]'',
             url_origin = ''http://[::1]:8080''\<rparr>
   \<and> isIPv6Host ''[::1]''
   \<and> \<not> originHasSubdomain sampleURL ''http://[::1]:8080''"
proof -
  let ?u = "\<lparr>url_protocol = ''http:'', url_hostname = ''192.168.1.1'',
             url_origin = ''http://192.168.1.1''\<rparr>"
  let ?v = "\<lparr>url_protocol = ''http:'', url_hostname = ''[::1]'',
             url_origin = ''http://[::1]:8080''\<rparr>"
  have p: "sampleURL ''http://192.168.1.1'' = Some ?u"
    by (simp add: sampleURL_def)
  have v: "isIPv4Host ''192.168.1.1''"
    by (simp add: isIPv4Host_def isDecimalByte_def digitValue_def)
  have q: "sampleURL ''http://[::1]:8080'' = Some ?v"
    by (simp add: sampleURL_def)
  have w: "isIPv6Host ''[::1]''"
    by (simp add: isIPv6Host_def)
  from originHasSubdomain_counts_labels [of sampleURL "''http://192.168.1.1''" ?u]
  have a: "originHasSubdomain sampleURL ''http://192.168.1.1''"
    using p v by simp
  from originHasSubdomain_counts_labels [of sampleURL "''http://[::1]:8080''" ?v]
  have b: "\<not> originHasSubdomain sampleURL ''http://[::1]:8080''"
    using q w by simp
  show ?thesis using p v a q w b by simp
qed

text \<open>
  Claim C7 as stated fails: it excludes IPv4 hosts, and the code answers true on
  \<open>http://192.168.1.1\<close>.
\<close>

theorem hasSubdomain_ipv4_counterexample:
  "originHasSubdomain sampleURL ''http://192.168.1.1''
   \<and> \<not> hasSubdomain_spec sampleURL ''http://192.168.1.1''"
proof
  show "originHasSubdomain sampleURL ''http://192.168.1.1''"
    by (simp add: originHasSubdomain_def sampleURL_def)
  show "\<not> hasSubdomain_spec sampleURL ''http://192.168.1.1''"
    by (simp add: hasSubdomain_spec_def sampleURL_def isIPv4Host_def isDecimalByte_def
        digitValue_def)
qed

text \<open>
  Claim C8. \<open>getMainDomainOrigin\<close> is \<open>null\<close> when the origin does not parse or its hostname
  has at most two labels; otherwise the hostname is \<open>first.rest\<close> with no dot in \<open>first\<close>,
  and the result is the protocol, \<open>//\<close> and \<open>rest\<close>. On \<open>https://us.example.com\<close> it gives
  \<open>https://example.com\<close>.
\<close>

theorem getMainDomainOrigin_strips_first_label:
  "(U orig = None \<longrightarrow> getMainDomainOrigin U orig = None)
   \<and> (U orig = Some u \<and> length (js_split (CHR ''.'') (url_hostname u)) \<le> 2
        \<longrightarrow> getMainDomainOrigin U orig = None)
   \<and> (U orig = Some u \<and> length (js_split (CHR ''.'') (url_hostname u)) > 2
        \<longrightarrow> (\<exists>first rest.
              url_hostname u = first @ ''.'' @ rest \<and> CHR ''.'' \<notin> set first
              \<and> getMainDomainOrigin U orig = Some (url_protocol u @ ''//'' @ rest)))
   \<and> getMainDomainOrigin sampleURL ''https://us.example.com'' = Some ''https://example.com''"
proof (intro conjI impI)
  show "getMainDomainOrigin U orig = None" if "U orig = None"
    using that by (simp add: getMainDomainOrigin_def)
next
  assume "U orig = Some u \<and> length (js_split (CHR ''.'') (url_hostname u)) \<le> 2"
  then show "getMainDomainOrigin U orig = None"
    by (simp add: getMainDomainOrigin_def)
next
  assume h: "U orig = Some u \<and> length (js_split (CHR ''.'') (url_hostname u)) > 2"
  let ?ls = "js_split (CHR ''.'') (url_hostname u)"
  have d: "url_hostname u = hd ?ls @ ''.'' @ js_join ''.'' (tl ?ls)"
    using js_split_decompose [of "CHR ''.''" "url_hostname u"] h by simp
  have n: "CHR ''.'' \<notin> set (hd ?ls)" by (rule js_split_hd_no_sep)
  have g: "getMainDomainOrigin U orig = Some (url_protocol u @ ''//'' @ js_join ''.'' (tl ?ls))"
    using h by (simp add: getMainDomainOrigin_def Let_def drop_Suc)
  show "\<exists>first rest.
      url_hostname u = first @ ''.'' @ rest \<and> CHR ''.'' \<notin> set first
      \<and> getMainDomainOrigin U orig = Some (url_protocol u @ ''//'' @ rest)"
    using d n g by blast
next
  show "getMainDomainOrigin sampleURL ''https://us.example.com'' = Some ''https://example.com''"
    by (simp add: getMainDomainOrigin_def sampleURL_def)
qed

text \<open>The three cases on concrete origins.\<close>

theorem getMainDomainOrigin_strips_first_label_witness:
  "sampleURL ''https://a.b.example.com''
     = Some \<lparr>url_protocol = ''https:'', url_hostname = ''a.b.example.com'',
             url_origin = ''https://a.b.example.com''\<rparr>
   \<and> length (js_split (CHR ''.'') ''a.b.example.com'') > 2
   \<and> (\<exists>first rest. ''a.b.example.com'' = first @ ''.'' @ rest \<and> CHR ''.'' \<notin> set first
        \<and> getMainDomainOrigin sampleURL ''https://a.b.example.com''
            = Some (''https:'' @ ''//'' @ rest))
   \<and> getMainDomainOrigin sampleURL ''https://example.com'' = None
   \<and> getMainDomainOrigin sampleURL ''not a url'' = None"
proof -
  let ?u = "\<lparr>url_protocol = ''https:'', url_hostname = ''a.b.example.com'',
             url_origin = ''https://a.b.example.com''\<rparr>"
  let ?v = "\<lparr>url_protocol = ''https:'', url_hostname = ''example.com'',
             url_origin = ''https://example.com''\<rparr>"
  have p: "sampleURL ''https://a.b.example.com'' = Some ?u"
    by (simp add: sampleURL_def)
  have l: "length (js_split (CHR ''.'') ''a.b.example.com'') > 2"
    by simp
  have q: "sampleURL ''https://example.com'' = Some ?v
      \<and> length (js_split (CHR ''.'') (url_hostname ?v)) \<le> 2"
    by (simp add: sampleURL_def)
  have r: "sampleURL ''not a url'' = None"
    by (simp add: sampleURL_def)
  have a: "\<exists>first rest. ''a.b.example.com'' = first @ ''.'' @ rest \<and> CHR ''.'' \<notin> set first
        \<and> getMainDomainOrigin sampleURL ''https://a.b.example.com''
            = Some (''https:'' @ ''//'' @ rest)"
    using getMainDomainOrigin_strips_first_label [of sampleURL "''https://a.b.example.com''" ?u]
      p l by simp
  have b: "getMainDomainOrigin sampleURL ''https://example.com'' = None"
    using getMainDomainOrigin_strips_first_label [of sampleURL "''https://example.com''" ?v]
      q by blast
  have c: "getMainDomainOrigin sampleURL ''not a url'' = None"
    using getMainDomainOrigin_strips_first_label [of sampleURL "''not a url''"] r by blast
  show ?thesis using p l a b c by blast
qed


text \<open>The assumption on \<open>URL\<close> is needed: idempotence on every string implies it.\<close>

lemma originStable_necessary:
  assumes "\<forall>r. normalizeOrigin U (normalizeOrigin U r) = normalizeOrigin U r"
  shows "originStable U"
  unfolding originStable_def
proof (intro allI impI)
  fix s u
  assume p: "U s = Some u"
  have "normalizeOrigin U (normalizeOrigin U s) = normalizeOrigin U s"
    using assms by blast
  then show "case U (url_origin u) of None \<Rightarrow> True | Some u' \<Rightarrow> url_origin u' = url_origin u"
    using p by (simp add: normalizeOrigin_def split: option.splits)
qed



section \<open>findPrivacyLink\<close>

lemma privacyStep_found: "truthy found \<Longrightarrow> privacyStep E orig found a = found"
  by (simp add: privacyStep_def)

lemma privacyStep_skip:
  "\<not> truthy found \<Longrightarrow> \<not> resolvable E orig a \<Longrightarrow> privacyStep E orig found a = found"
  by (auto simp add: privacyStep_def resolvable_def mentionsPrivacy_def Let_def)

lemma privacyStep_take:
  "\<not> truthy found \<Longrightarrow> resolvable E orig a
     \<Longrightarrow> privacyStep E orig found a = resolveLink E orig (fst a)"
  by (auto simp add: privacyStep_def resolvable_def mentionsPrivacy_def Let_def)

lemma foldl_privacyStep_found:
  "truthy found \<Longrightarrow> foldl (privacyStep E orig) found xs = found"
  by (induction xs) (simp_all add: privacyStep_found)

lemma foldl_privacyStep_skip:
  "\<not> truthy found \<Longrightarrow> \<forall>b \<in> set xs. \<not> resolvable E orig b
     \<Longrightarrow> foldl (privacyStep E orig) found xs = found"
  by (induction xs) (simp_all add: privacyStep_skip)

lemma foldl_privacyStep_first:
  assumes "\<not> truthy found" "\<forall>b \<in> set pre. \<not> resolvable E orig b" "resolvable E orig a"
  shows "foldl (privacyStep E orig) found (pre @ a # post) = resolveLink E orig (fst a)"
proof -
  have "foldl (privacyStep E orig) found pre = found"
    using assms by (simp add: foldl_privacyStep_skip)
  moreover have "privacyStep E orig found a = resolveLink E orig (fst a)"
    using assms by (simp add: privacyStep_take)
  moreover have "truthy (resolveLink E orig (fst a))"
    using assms by (simp add: resolvable_def)
  ultimately show ?thesis by (simp add: foldl_privacyStep_found)
qed

text \<open>
  Claim C6, as the code has it. \<open>findPrivacyLink\<close> goes through the anchors in document
  order and returns the resolved href of the first anchor that both mentions "privacy"
  (in its lower-cased text or href) and has an href that resolves against the origin; an
  anchor that mentions "privacy" but does not resolve is passed over. When no anchor
  does both, the result is \<open>undefined\<close>.
\<close>

theorem findPrivacyLink_first_resolvable:
  "(anchors E html = pre @ a # post
      \<and> (\<forall>b \<in> set pre. \<not> (mentionsPrivacy b \<and> truthy (resolveLink E orig (fst b))))
      \<and> mentionsPrivacy a \<and> truthy (resolveLink E orig (fst a))
     \<longrightarrow> findPrivacyLink E html orig = resolveLink E orig (fst a))
   \<and> ((\<forall>b \<in> set (anchors E html). \<not> (mentionsPrivacy b \<and> truthy (resolveLink E orig (fst b))))
     \<longrightarrow> findPrivacyLink E html orig = None)"
proof (intro conjI impI)
  assume h: "anchors E html = pre @ a # post
      \<and> (\<forall>b \<in> set pre. \<not> (mentionsPrivacy b \<and> truthy (resolveLink E orig (fst b))))
      \<and> mentionsPrivacy a \<and> truthy (resolveLink E orig (fst a))"
  have n: "\<not> truthy None" by (simp add: truthy_def)
  have "foldl (privacyStep E orig) None (pre @ a # post) = resolveLink E orig (fst a)"
    using h n by (intro foldl_privacyStep_first) (simp_all add: resolvable_def)
  then show "findPrivacyLink E html orig = resolveLink E orig (fst a)"
    using h by (simp add: findPrivacyLink_def)
next
  assume h: "\<forall>b \<in> set (anchors E html). \<not> (mentionsPrivacy b \<and> truthy (resolveLink E orig (fst b)))"
  have n: "\<not> truthy None" by (simp add: truthy_def)
  show "findPrivacyLink E html orig = None"
    unfolding findPrivacyLink_def
    using h n by (intro foldl_privacyStep_skip) (simp_all add: resolvable_def)
qed

text \<open>
  Two anchors mention "privacy"; the href of the first, \<open>http://\<close>, does not resolve, and
  the second one is returned.
\<close>

lemmas sample_eval = sampleEnv_def sampleAnchors_def sampleLinks_def sampleHome_def
  samplePolicy_def sampleResolve_def resolveLink_def mentionsPrivacy_def truthy_def
  toLowerCase_def lowerChar_def

theorem findPrivacyLink_first_resolvable_witness:
  "anchors sampleEnv sampleLinks
     = [(''http://'', ''Privacy'')] @ (''/legal'', ''Privacy Policy'') # []
   \<and> \<not> truthy (resolveLink sampleEnv ''https://example.com'' ''http://'')
   \<and> mentionsPrivacy (''/legal'', ''Privacy Policy'')
   \<and> findPrivacyLink sampleEnv sampleLinks ''https://example.com''
       = Some ''https://example.com/legal''"
proof -
  let ?o = "''https://example.com''"
  have a: "anchors sampleEnv sampleLinks
      = [(''http://'', ''Privacy'')] @ (''/legal'', ''Privacy Policy'') # []"
    by (simp add: sample_eval)
  have r1: "\<not> truthy (resolveLink sampleEnv ?o ''http://'')"
    by (simp add: sample_eval)
  have r2: "resolveLink sampleEnv ?o ''/legal'' = Some ''https://example.com/legal''"
    by (simp add: sample_eval)
  have m: "mentionsPrivacy (''/legal'', ''Privacy Policy'')"
    by (simp add: sample_eval)
  have "findPrivacyLink sampleEnv sampleLinks ?o = resolveLink sampleEnv ?o (fst (''/legal'', ''Privacy Policy''))"
    using findPrivacyLink_first_resolvable
      [of sampleEnv sampleLinks "[(''http://'', ''Privacy'')]" "(''/legal'', ''Privacy Policy'')" "[]" ?o]
      a r1 r2 m by (simp add: truthy_def)
  then show ?thesis using a r1 r2 m by simp
qed

text \<open>
  Claim C6 as stated fails: the first anchor that mentions "privacy" does not win when its
  href does not resolve. Resolving the first match gives nothing here, and the code
  returns the second match.
\<close>

theorem findPrivacyLink_first_match_counterexample:
  "findPrivacyLink sampleEnv sampleLinks ''https://example.com'' = Some ''https://example.com/legal''
   \<and> findPrivacyLink_spec sampleEnv sampleLinks ''https://example.com'' = None"
proof
  show "findPrivacyLink sampleEnv sampleLinks ''https://example.com'' = Some ''https://example.com/legal''"
    by (simp add: findPrivacyLink_def privacyStep_def sample_eval)
  show "findPrivacyLink_spec sampleEnv sampleLinks ''https://example.com'' = None"
    by (simp add: findPrivacyLink_spec_def sample_eval)
qed

section \<open>scrapeOrigin\<close>



















section \<open>findPrivacyPolicyAndEmails\<close>

lemma getMainDomainOrigin_Some:
  assumes "getMainDomainOrigin U orig = Some m"
  shows "originHasSubdomain U orig \<and> truthy (Some m)"
proof (cases "U orig")
  case None
  then show ?thesis using assms by (simp add: getMainDomainOrigin_def)
next
  case (Some u)
  then show ?thesis
    using assms
    by (auto simp add: getMainDomainOrigin_def originHasSubdomain_def truthy_def Let_def
        split: if_splits)
qed

lemma originHasSubdomain_main:
  "originHasSubdomain U orig \<Longrightarrow> \<exists>m. getMainDomainOrigin U orig = Some m"
  by (cases "U orig") (auto simp add: getMainDomainOrigin_def originHasSubdomain_def Let_def)

lemma not_subdomain_no_main:
  "\<not> originHasSubdomain U orig \<Longrightarrow> getMainDomainOrigin U orig = None"
  using getMainDomainOrigin_Some by (cases "getMainDomainOrigin U orig") auto

lemma wrapper_returns:
  "\<exists>r st'. findPrivacyPolicyAndEmailsWith scrape U rawUrl st = (Inr r, st')"
  unfolding findPrivacyPolicyAndEmailsWith_def Let_def
  by (auto split: prod.splits sum.splits)

lemma wrapper_first_throws_no_widening:
  assumes "scrape (normalizeOrigin U rawUrl) st = (Inl e, st1)"
    and "\<not> originHasSubdomain U (normalizeOrigin U rawUrl)"
  shows "findPrivacyPolicyAndEmailsWith scrape U rawUrl st
     = (Inr \<lparr>privacyUrl = None, emails = []\<rparr>, st1)"
  using assms by (simp add: findPrivacyPolicyAndEmailsWith_def Let_def)

lemma wrapper_first_throws_widening_throws:
  assumes "scrape (normalizeOrigin U rawUrl) st = (Inl e, st1)"
    and "getMainDomainOrigin U (normalizeOrigin U rawUrl) = Some m"
    and "scrape m st1 = (Inl e2, st2)"
  shows "findPrivacyPolicyAndEmailsWith scrape U rawUrl st
     = (Inr \<lparr>privacyUrl = None, emails = []\<rparr>, st2)"
  using assms getMainDomainOrigin_Some [OF assms(2)]
  by (simp add: findPrivacyPolicyAndEmailsWith_def Let_def truthy_def)

lemma wrapper_first_throws_widening_returns:
  assumes "scrape (normalizeOrigin U rawUrl) st = (Inl e, st1)"
    and "getMainDomainOrigin U (normalizeOrigin U rawUrl) = Some m"
    and "scrape m st1 = (Inr mr, st2)"
  shows "findPrivacyPolicyAndEmailsWith scrape U rawUrl st
     = (Inr \<lparr>privacyUrl = privacyUrl mr, emails = uniq (emails mr)\<rparr>, st2)"
  using assms getMainDomainOrigin_Some [OF assms(2)]
  by (simp add: findPrivacyPolicyAndEmailsWith_def Let_def truthy_def split: option.splits)

lemma wrapper_widening_throws:
  assumes "scrape (normalizeOrigin U rawUrl) st = (Inr r1, st1)"
    and "\<not> truthy (privacyUrl r1)" and "emails r1 = []"
    and "getMainDomainOrigin U (normalizeOrigin U rawUrl) = Some m"
    and "scrape m st1 = (Inl e2, st2)"
  shows "findPrivacyPolicyAndEmailsWith scrape U rawUrl st = (Inr r1, st2)"
  using assms getMainDomainOrigin_Some [OF assms(4)]
  by (simp add: findPrivacyPolicyAndEmailsWith_def Let_def)

text \<open>
  Claim C1. Whatever the two \<open>scrapeOrigin\<close> calls do, return or throw,
  \<open>findPrivacyPolicyAndEmails\<close> returns a result and never throws. When the first call
  throws, its result is taken to be \<open>{privacyUrl: null, emails: []}\<close>: that is what is
  returned when the origin has no subdomain or when the call on the parent domain throws
  too, and it is what the outcome of the parent domain is merged with when that call
  returns. When the first call returns and the call on the parent domain throws, the
  result of the first call is returned unchanged.
\<close>

theorem findPrivacyPolicyAndEmails_never_raises:
  "(\<exists>r st'. findPrivacyPolicyAndEmailsWith scrape U rawUrl st = (Inr r, st'))
   \<and> (\<exists>r nst'. findPrivacyPolicyAndEmails E rawUrl nst = (Inr r, nst'))
   \<and> (scrape (normalizeOrigin U rawUrl) st = (Inl errA, stA)
        \<and> \<not> originHasSubdomain U (normalizeOrigin U rawUrl)
      \<longrightarrow> findPrivacyPolicyAndEmailsWith scrape U rawUrl st
           = (Inr \<lparr>privacyUrl = None, emails = []\<rparr>, stA))
   \<and> (scrape (normalizeOrigin U rawUrl) st = (Inl errA, stA)
        \<and> getMainDomainOrigin U (normalizeOrigin U rawUrl) = Some mainOrigin
        \<and> scrape mainOrigin stA = (Inl errB, stB)
      \<longrightarrow> findPrivacyPolicyAndEmailsWith scrape U rawUrl st
           = (Inr \<lparr>privacyUrl = None, emails = []\<rparr>, stB))
   \<and> (scrape (normalizeOrigin U rawUrl) st = (Inl errA, stA)
        \<and> getMainDomainOrigin U (normalizeOrigin U rawUrl) = Some mainOrigin
        \<and> scrape mainOrigin stA = (Inr mainResult, stB)
      \<longrightarrow> findPrivacyPolicyAndEmailsWith scrape U rawUrl st
           = (Inr \<lparr>privacyUrl = privacyUrl mainResult, emails = uniq (emails mainResult)\<rparr>, stB))
   \<and> (scrape (normalizeOrigin U rawUrl) st = (Inr firstResult, stA)
        \<and> \<not> truthy (privacyUrl firstResult) \<and> emails firstResult = []
        \<and> getMainDomainOrigin U (normalizeOrigin U rawUrl) = Some mainOrigin
        \<and> scrape mainOrigin stA = (Inl errB, stB)
      \<longrightarrow> findPrivacyPolicyAndEmailsWith scrape U rawUrl st = (Inr firstResult, stB))"
proof (intro conjI impI)
  show "\<exists>r st'. findPrivacyPolicyAndEmailsWith scrape U rawUrl st = (Inr r, st')"
    by (rule wrapper_returns)
next
  show "\<exists>r nst'. findPrivacyPolicyAndEmails E rawUrl nst = (Inr r, nst')"
    unfolding findPrivacyPolicyAndEmails_def by (rule wrapper_returns)
next
  assume h: "scrape (normalizeOrigin U rawUrl) st = (Inl errA, stA)
        \<and> \<not> originHasSubdomain U (normalizeOrigin U rawUrl)"
  show "findPrivacyPolicyAndEmailsWith scrape U rawUrl st
           = (Inr \<lparr>privacyUrl = None, emails = []\<rparr>, stA)"
    using h wrapper_first_throws_no_widening [of scrape U rawUrl st errA stA] by simp
next
  assume h: "scrape (normalizeOrigin U rawUrl) st = (Inl errA, stA)
        \<and> getMainDomainOrigin U (normalizeOrigin U rawUrl) = Some mainOrigin
        \<and> scrape mainOrigin stA = (Inl errB, stB)"
  show "findPrivacyPolicyAndEmailsWith scrape U rawUrl st
           = (Inr \<lparr>privacyUrl = None, emails = []\<rparr>, stB)"
    using h wrapper_first_throws_widening_throws [of scrape U rawUrl st errA stA mainOrigin errB stB] by simp
next
  assume h: "scrape (normalizeOrigin U rawUrl) st = (Inl errA, stA)
        \<and> getMainDomainOrigin U (normalizeOrigin U rawUrl) = Some mainOrigin
        \<and> scrape mainOrigin stA = (Inr mainResult, stB)"
  show "findPrivacyPolicyAndEmailsWith scrape U rawUrl st
           = (Inr \<lparr>privacyUrl = privacyUrl mainResult, emails = uniq (emails mainResult)\<rparr>, stB)"
    using h wrapper_first_throws_widening_returns [of scrape U rawUrl st errA stA mainOrigin mainResult stB] by simp
next
  assume h: "scrape (normalizeOrigin U rawUrl) st = (Inr firstResult, stA)
        \<and> \<not> truthy (privacyUrl firstResult) \<and> emails firstResult = []
        \<and> getMainDomainOrigin U (normalizeOrigin U rawUrl) = Some mainOrigin
        \<and> scrape mainOrigin stA = (Inl errB, stB)"
  show "findPrivacyPolicyAndEmailsWith scrape U rawUrl st = (Inr firstResult, stB)"
    using h wrapper_widening_throws [of scrape U rawUrl st firstResult stA mainOrigin errB stB] by simp
qed

text \<open>
  Three runs: an origin without subdomain whose discovery throws; a subdomain for which
  both calls throw; a subdomain whose discovery finds nothing and whose parent throws.
\<close>

theorem findPrivacyPolicyAndEmails_never_raises_witness:
  "sampleScrape True (normalizeOrigin sampleURL ''https://example.com'') 0
     = (Inl (Error ''stack overflow''), Suc 0)
   \<and> \<not> originHasSubdomain sampleURL (normalizeOrigin sampleURL ''https://example.com'')
   \<and> findPrivacyPolicyAndEmailsWith (sampleScrape True) sampleURL ''https://example.com'' 0
       = (Inr \<lparr>privacyUrl = None, emails = []\<rparr>, Suc 0)
   \<and> sampleScrape True (normalizeOrigin sampleURL ''https://us.example.com/login?next=1'') 0
       = (Inl (Error ''stack overflow''), Suc 0)
   \<and> getMainDomainOrigin sampleURL (normalizeOrigin sampleURL ''https://us.example.com/login?next=1'')
       = Some ''https://example.com''
   \<and> sampleScrape True ''https://example.com'' (Suc 0)
       = (Inl (Error ''stack overflow''), Suc (Suc 0))
   \<and> findPrivacyPolicyAndEmailsWith (sampleScrape True) sampleURL
         ''https://us.example.com/login?next=1'' 0
       = (Inr \<lparr>privacyUrl = None, emails = []\<rparr>, Suc (Suc 0))
   \<and> sampleScrape False (normalizeOrigin sampleURL ''https://us.example.com/login?next=1'') 0
       = (Inr \<lparr>privacyUrl = None, emails = []\<rparr>, Suc 0)
   \<and> sampleScrape False ''https://example.com'' (Suc 0)
       = (Inl (Error ''stack overflow''), Suc (Suc 0))
   \<and> findPrivacyPolicyAndEmailsWith (sampleScrape False) sampleURL
         ''https://us.example.com/login?next=1'' 0
       = (Inr \<lparr>privacyUrl = None, emails = []\<rparr>, Suc (Suc 0))"
proof -
  let ?raw = "''https://us.example.com/login?next=1''"
  let ?empty = "\<lparr>privacyUrl = None, emails = []\<rparr>"
  have n1: "normalizeOrigin sampleURL ''https://example.com'' = ''https://example.com''"
    by (simp add: normalizeOrigin_def sampleURL_def)
  have n2: "normalizeOrigin sampleURL ?raw = ''https://us.example.com''"
    by (simp add: normalizeOrigin_def sampleURL_def)
  have a1: "sampleScrape True (normalizeOrigin sampleURL ''https://example.com'') 0
      = (Inl (Error ''stack overflow''), Suc 0)"
    by (simp add: sampleScrape_def)
  have a2: "\<not> originHasSubdomain sampleURL (normalizeOrigin sampleURL ''https://example.com'')"
    unfolding n1 by (simp add: originHasSubdomain_def sampleURL_def)
  have b1: "sampleScrape True (normalizeOrigin sampleURL ?raw) 0
      = (Inl (Error ''stack overflow''), Suc 0)"
    by (simp add: sampleScrape_def)
  have b2: "getMainDomainOrigin sampleURL (normalizeOrigin sampleURL ?raw)
      = Some ''https://example.com''"
    unfolding n2 by (simp add: getMainDomainOrigin_def sampleURL_def)
  have b3: "sampleScrape True ''https://example.com'' (Suc 0)
      = (Inl (Error ''stack overflow''), Suc (Suc 0))"
    by (simp add: sampleScrape_def)
  have c1: "sampleScrape False (normalizeOrigin sampleURL ?raw) 0 = (Inr ?empty, Suc 0)"
    unfolding n2 by (simp add: sampleScrape_def)
  have c3: "sampleScrape False ''https://example.com'' (Suc 0)
      = (Inl (Error ''stack overflow''), Suc (Suc 0))"
    by (simp add: sampleScrape_def)
  have c4: "\<not> truthy (privacyUrl ?empty) \<and> emails ?empty = []"
    by (simp add: truthy_def)
  let ?n0 = "\<lparr>world = 0, fetched = []\<rparr> :: nat net"
  have ra: "findPrivacyPolicyAndEmailsWith (sampleScrape True) sampleURL ''https://example.com'' 0
       = (Inr ?empty, Suc 0)"
    using findPrivacyPolicyAndEmails_never_raises
      [where scrape = "sampleScrape True" and U = sampleURL
         and rawUrl = "''https://example.com''" and st = 0
         and errA = "Error ''stack overflow''" and stA = "Suc 0"
         and mainOrigin = "''https://example.com''"
         and errB = "Error ''stack overflow''" and stB = "Suc (Suc 0)"
         and mainResult = ?empty and firstResult = ?empty and E = sampleEnv and nst = ?n0]
      a1 a2 by simp
  have rb: "findPrivacyPolicyAndEmailsWith (sampleScrape True) sampleURL ?raw 0
       = (Inr ?empty, Suc (Suc 0))"
    using findPrivacyPolicyAndEmails_never_raises
      [where scrape = "sampleScrape True" and U = sampleURL and rawUrl = ?raw and st = 0
         and errA = "Error ''stack overflow''" and stA = "Suc 0"
         and mainOrigin = "''https://example.com''"
         and errB = "Error ''stack overflow''" and stB = "Suc (Suc 0)"
         and mainResult = ?empty and firstResult = ?empty and E = sampleEnv and nst = ?n0]
      b1 b2 b3 by simp
  have rc: "findPrivacyPolicyAndEmailsWith (sampleScrape False) sampleURL ?raw 0
       = (Inr ?empty, Suc (Suc 0))"
    using findPrivacyPolicyAndEmails_never_raises
      [where scrape = "sampleScrape False" and U = sampleURL and rawUrl = ?raw and st = 0
         and errA = "Error ''stack overflow''" and stA = "Suc 0"
         and mainOrigin = "''https://example.com''"
         and errB = "Error ''stack overflow''" and stB = "Suc (Suc 0)"
         and mainResult = ?empty and firstResult = ?empty and E = sampleEnv and nst = ?n0]
      c1 b2 c3 c4 by simp
  show ?thesis using a1 a2 ra b1 b2 b3 rb c1 c3 rc by simp
qed

section \<open>scrapeEntry\<close>

lemma findUnique_ok:
  "storeFault S (outer s) = (None, w') \<Longrightarrow> findUnique S i s = (Inr (db s i), s\<lparr>outer := w'\<rparr>)"
  by (simp add: findUnique_def)

lemma update_ok:
  "storeFault S (outer s) = (None, w') \<Longrightarrow> db s i = Some row
     \<Longrightarrow> update S i d s
         = (Inr (),
            s\<lparr>db := (db s)(i \<mapsto> applyUpdate d row), writes := writes s @ [(i, d)],
              outer := w'\<rparr>)"
  by (simp add: update_def)


lemma applyUpdate_inProgress:
  "applyUpdate dataInProgress row = row\<lparr>status := ''in_progress'', errorMessage := None\<rparr>"
  by (simp add: applyUpdate_def dataInProgress_def)

lemma applyUpdate_noResults:
  "applyUpdate dataNoResults row = row\<lparr>status := ''no_results''\<rparr>"
  by (simp add: applyUpdate_def dataNoResults_def)



text \<open>The state after the look-up and the update to \<open>in_progress\<close>.\<close>

lemma scrapeEntry_start:
  assumes "db s i = Some existing"
    and "storeFault S (outer s) = (None, w1)"
    and "storeFault S w1 = (None, w2)"
  shows "scrapeEntry S i s =
     (case
        (case scrapeTry S i existing
                (s\<lparr>db := (db s)(i \<mapsto> existing\<lparr>status := ''in_progress'', errorMessage := None\<rparr>),
                   writes := writes s @ [(i, dataInProgress)], outer := w2\<rparr>) of
           (Inl err, s3) \<Rightarrow> scrapeCatch S i err s3
         | (Inr u', s3) \<Rightarrow> (Inr (), s3))
      of
        (Inl e, s4) \<Rightarrow> (Inl e, s4)
      | (Inr u'', s4) \<Rightarrow>
          (case findUnique S i s4 of
             (Inl e, s5) \<Rightarrow> (Inl e, s5)
           | (Inr None, s5) \<Rightarrow> (Inl (Error ''Entry disappeared''), s5)
           | (Inr (Some updated), s5) \<Rightarrow> (Inr (mapRow updated), s5)))"
proof -
  have a: "findUnique S i s = (Inr (Some existing), s\<lparr>outer := w1\<rparr>)"
    using assms by (simp add: findUnique_ok)
  have b: "update S i dataInProgress (s\<lparr>outer := w1\<rparr>)
      = (Inr (),
         s\<lparr>db := (db s)(i \<mapsto> existing\<lparr>status := ''in_progress'', errorMessage := None\<rparr>),
           writes := writes s @ [(i, dataInProgress)], outer := w2\<rparr>)"
    using assms update_ok [of S "s\<lparr>outer := w1\<rparr>" w2 i existing dataInProgress]
    by (simp add: applyUpdate_inProgress)
  show ?thesis
    by (simp add: scrapeEntry_def a b)
qed

lemma scrapeEntry_result_written:
  assumes "db s i = Some existing"
    and "storeFault S (outer s) = (None, w1)"
    and "storeFault S w1 = (None, w2)"
    and "discover S (url existing) w2 = (Inr r, w3)"
    and "storeFault S w3 = (None, w4)"
    and "storeFault S w4 = (None, w5)"
    and "d = (if \<not> truthy (privacyUrl r) \<and> length (emails r) = 0 then dataNoResults
              else dataDone (privacyUrl r) (emails r))"
    and "row = applyUpdate d (existing\<lparr>status := ''in_progress'', errorMessage := None\<rparr>)"
  shows "scrapeEntry S i s =
     (Inr (mapRow row),
      s\<lparr>db := (db s)(i \<mapsto> row),
        writes := writes s @ [(i, dataInProgress), (i, d)], outer := w5\<rparr>)"
proof -
  let ?s2 = "s\<lparr>db := (db s)(i \<mapsto> existing\<lparr>status := ''in_progress'', errorMessage := None\<rparr>),
                writes := writes s @ [(i, dataInProgress)], outer := w2\<rparr>"
  let ?s3 = "s\<lparr>db := (db s)(i \<mapsto> existing\<lparr>status := ''in_progress'', errorMessage := None\<rparr>),
                writes := writes s @ [(i, dataInProgress)], outer := w3\<rparr>"
  have u: "update S i d ?s3
      = (Inr (), s\<lparr>db := (db s)(i \<mapsto> row),
           writes := writes s @ [(i, dataInProgress), (i, d)], outer := w4\<rparr>)"
    using assms(5,8)
      update_ok [of S ?s3 w4 i
                    "existing\<lparr>status := ''in_progress'', errorMessage := None\<rparr>" d]
    by simp
  have t: "scrapeTry S i existing ?s2
      = (Inr (), s\<lparr>db := (db s)(i \<mapsto> row),
           writes := writes s @ [(i, dataInProgress), (i, d)], outer := w4\<rparr>)"
  proof (cases "\<not> truthy (privacyUrl r) \<and> length (emails r) = 0")
    case True
    then have "d = dataNoResults" using assms(7) by simp
    then show ?thesis using True assms(4) u by (simp add: scrapeTry_def)
  next
    case False
    then have "d = dataDone (privacyUrl r) (emails r)" using assms(7) by auto
    then show ?thesis using False assms(4) u by (auto simp add: scrapeTry_def)
  qed
  have f: "findUnique S i (s\<lparr>db := (db s)(i \<mapsto> row),
           writes := writes s @ [(i, dataInProgress), (i, d)], outer := w4\<rparr>)
      = (Inr (Some row), s\<lparr>db := (db s)(i \<mapsto> row),
           writes := writes s @ [(i, dataInProgress), (i, d)], outer := w5\<rparr>)"
    using assms(6) by (simp add: findUnique_def)
  show ?thesis
    by (simp add: scrapeEntry_start [OF assms(1,2,3)] t f)
qed





text \<open>
  Claim C10. When the discovery finds nothing, \<open>scrapeEntry\<close> writes two updates: the one
  to \<open>in_progress\<close>, which supplies the status and clears the error message, and the one to
  \<open>no_results\<close>, which supplies the status alone. The row keeps every other field, and so
  the privacy URL and the e-mails of an earlier discovery, under the status \<open>no_results\<close>.
\<close>

theorem scrapeEntry_no_results_keeps_fields:
  assumes "db s i = Some existing"
    and "storeFault S (outer s) = (None, wa)"
    and "storeFault S wa = (None, wb)"
    and "discover S (url existing) wb = (Inr r, wc)"
    and "storeFault S wc = (None, wd)"
    and "storeFault S wd = (None, we)"
    and "\<not> truthy (privacyUrl r)" and "emails r = []"
  shows
    "\<exists>s' row.
       scrapeEntry S i s = (Inr (mapRow row), s')
       \<and> db s' = (db s)(i \<mapsto> row)
       \<and> writes s' = writes s @ [(i, dataInProgress), (i, dataNoResults)]
       \<and> row = existing\<lparr>status := ''no_results'', errorMessage := None\<rparr>
       \<and> status row = ''no_results''
       \<and> entryPrivacyUrl row = entryPrivacyUrl existing
       \<and> scrapedEmails row = scrapedEmails existing
       \<and> dataNoResults
           = \<lparr>dataStatus = Some ''no_results'', dataErrorMessage = None,
              dataPrivacyUrl = None, dataScrapedEmails = None\<rparr>
       \<and> dataInProgress
           = \<lparr>dataStatus = Some ''in_progress'', dataErrorMessage = Some None,
              dataPrivacyUrl = None, dataScrapedEmails = None\<rparr>
       \<and> applyUpdate dataInProgress existing
           = existing\<lparr>status := ''in_progress'', errorMessage := None\<rparr>"
proof -
  let ?row = "existing\<lparr>status := ''no_results'', errorMessage := None\<rparr>"
  have "scrapeEntry S i s =
     (Inr (mapRow ?row),
      s\<lparr>db := (db s)(i \<mapsto> ?row),
        writes := writes s @ [(i, dataInProgress), (i, dataNoResults)], outer := we\<rparr>)"
    using assms(7,8)
    by (intro scrapeEntry_result_written [OF assms(1-6)]) (simp_all add: applyUpdate_noResults)
  then show ?thesis
    by (simp add: dataNoResults_def dataInProgress_def applyUpdate_def)
qed

text \<open>
  The four outcomes on the sample table: \<open>done\<close>, \<open>no_results\<close>, a discovery that throws
  an error of 600 characters, and a store that fails at the update to \<open>done\<close>.
\<close>

lemma sample_store_ok: "storeFault (sampleServer None) w = (None, Suc w)"
  by (simp add: sampleServer_def)


lemma sample_discover: "discover (sampleServer f) = sampleDiscover"
  by (simp add: sampleServer_def)


text \<open>
  The entry 8 was \<open>done\<close> with a privacy URL and an e-mail; after a discovery that finds
  nothing it is \<open>no_results\<close> and still holds both.
\<close>

theorem scrapeEntry_no_results_keeps_fields_witness:
  "\<exists>s'. scrapeEntry (sampleServer None) 8 sampleSys
       = (Inr (mapRow (entryGone\<lparr>status := ''no_results''\<rparr>)), s')
     \<and> map_option status (db s' 8) = Some ''no_results''
     \<and> map_option entryPrivacyUrl (db s' 8) = Some (Some ''https://gone.example/privacy'')
     \<and> map_option scrapedEmails (db s' 8) = Some (Some [''old@gone.example''])
     \<and> writes s' = [(8, dataInProgress), (8, dataNoResults)]"
proof -
  let ?S = "sampleServer None"
  let ?none = "\<lparr>privacyUrl = None, emails = []\<rparr>"
  have r8: "db sampleSys 8 = Some entryGone"
    by (simp add: sampleSys_def sampleRows_def)
  have o: "outer sampleSys = 0" and w: "writes sampleSys = []"
    by (simp_all add: sampleSys_def)
  have s0: "storeFault ?S (outer sampleSys) = (None, Suc 0)"
    and s1: "storeFault ?S (Suc 0) = (None, Suc (Suc 0))"
    and s3: "storeFault ?S (Suc (Suc (Suc 0))) = (None, Suc (Suc (Suc (Suc 0))))"
    and s4: "storeFault ?S (Suc (Suc (Suc (Suc 0)))) = (None, Suc (Suc (Suc (Suc (Suc 0)))))"
    by (simp_all add: sample_store_ok o)
  have d8: "discover ?S (url entryGone) (Suc (Suc 0)) = (Inr ?none, Suc (Suc (Suc 0)))"
    by (simp add: sample_discover sampleDiscover_def entryGone_def)
  have n: "\<not> truthy (privacyUrl ?none)" "emails ?none = []"
    by (simp_all add: truthy_def)
  have e: "entryGone\<lparr>status := ''no_results'', errorMessage := None\<rparr>
      = entryGone\<lparr>status := ''no_results''\<rparr>"
    by (simp add: entryGone_def)
  from scrapeEntry_no_results_keeps_fields [OF r8 s0 s1 d8 s3 s4 n]
  obtain s' row where h: "scrapeEntry ?S 8 sampleSys = (Inr (mapRow row), s')"
      "db s' = (db sampleSys)(8 \<mapsto> row)"
      "writes s' = writes sampleSys @ [(8, dataInProgress), (8, dataNoResults)]"
      "row = entryGone\<lparr>status := ''no_results'', errorMessage := None\<rparr>"
    by blast
  have "scrapeEntry ?S 8 sampleSys = (Inr (mapRow (entryGone\<lparr>status := ''no_results''\<rparr>)), s')
     \<and> map_option status (db s' 8) = Some ''no_results''
     \<and> map_option entryPrivacyUrl (db s' 8) = Some (Some ''https://gone.example/privacy'')
     \<and> map_option scrapedEmails (db s' 8) = Some (Some [''old@gone.example''])
     \<and> writes s' = [(8, dataInProgress), (8, dataNoResults)]"
    using h e w by (simp add: entryGone_def)
  then show ?thesis by blast
qed

section \<open>processScrapeQueue\<close>

text \<open>
  The \<open>while\<close> loop in closed form: it starts the first \<open>k\<close> queued ids, \<open>k\<close> being the
  smaller of the free slots and the length of the queue.
\<close>

lemma startLoop_closed:
  "startLoop c s =
     (let k = min (nat (c - activeCount s)) (length (queue s))
      in s\<lparr>queue := drop k (queue s),
           activeCount := activeCount s + int k,
           inflight := inflight s @ take k (queue s),
           started := started s @ take k (queue s)\<rparr>)"
proof (induction c s rule: startLoop.induct)
  case (1 c s)
  show ?case
  proof (cases "activeCount s < c \<and> length (queue s) > 0")
    case True
    then obtain q qs where q: "queue s = q # qs" by (cases "queue s") auto
    let ?t = "s\<lparr>queue := tl (queue s), activeCount := activeCount s + 1,
             inflight := inflight s @ [hd (queue s)],
             started := started s @ [hd (queue s)]\<rparr>"
    have step: "startLoop c s = startLoop c ?t"
      by (subst startLoop.simps) (simp only: True if_True simp_thms)
    have k: "min (nat (c - activeCount s)) (length (queue s))
        = Suc (min (nat (c - activeCount ?t)) (length (queue ?t)))"
    proof -
      have "nat (c - activeCount s) = Suc (nat (c - (activeCount s + 1)))"
        using True by linarith
      then show ?thesis using q by simp
    qed
    show ?thesis
      unfolding step "1.IH" [OF True] k Let_def using q by simp
  next
    case False
    then have k: "min (nat (c - activeCount s)) (length (queue s)) = 0"
      by auto
    have "startLoop c s = s"
      by (subst startLoop.simps) (simp only: False if_False simp_thms)
    then show ?thesis unfolding k Let_def by simp
  qed
qed

lemma processNext_starts:
  assumes "activeCount s = int (length (inflight s))"
    and "started s @ queue s = ids"
    and "mset (finished s) + mset (inflight s) = mset (started s)"
    and "activeCount s < c" and "queue s \<noteq> []" and "resolved s = 0"
  shows "schedInv ids c (processNext c s)"
proof -
  define k where "k = min (nat (c - activeCount s)) (length (queue s))"
  define s' where "s' = startLoop c s"
  have s': "s' = s\<lparr>queue := drop k (queue s), activeCount := activeCount s + int k,
      inflight := inflight s @ take k (queue s), started := started s @ take k (queue s)\<rparr>"
    unfolding s'_def k_def by (simp add: startLoop_closed Let_def)
  have a0: "0 \<le> activeCount s" using assms(1) by simp
  have k1: "1 \<le> k" using assms(4,5) unfolding k_def by (cases "queue s") auto
  have kq: "k \<le> length (queue s)" unfolding k_def by simp
  have kc: "activeCount s + int k \<le> c" unfolding k_def using assms(4) by auto
  have full: "drop k (queue s) \<noteq> [] \<Longrightarrow> activeCount s + int k = c"
    unfolding k_def using assms(4) by (auto simp add: min_def split: if_splits)
  have nz: "activeCount s' \<noteq> 0" using a0 k1 s' by simp
  have ne: "inflight s' \<noteq> []" using k1 kq assms(5) s' by (cases "queue s") auto
  have pn: "processNext c s = s'"
    using nz unfolding processNext_def s'_def [symmetric] Let_def by simp
  have i1: "activeCount s' = int (length (inflight s'))"
    using assms(1) kq s' by simp
  have i2: "started s' @ queue s' = ids"
    using assms(2) s' by simp
  have i3: "mset (finished s') + mset (inflight s') = mset (started s')"
    using assms(3) s' by simp
  have i4: "activeCount s' \<le> c" using kc s' by simp
  have i5: "queue s' \<noteq> [] \<longrightarrow> activeCount s' = c" using full s' by simp
  have i6: "resolved s' = (if queue s' = [] \<and> inflight s' = [] then 1 else 0)"
    using ne assms(6) s' by simp
  show ?thesis
    unfolding pn schedInv_def using i1 i2 i3 i4 i5 i6 by blast
qed

lemma processScrapeQueue_inv:
  assumes "1 \<le> c"
  shows "schedInv ids c (processScrapeQueue ids c)"
proof (cases "ids = []")
  case True
  then show ?thesis using assms by (simp add: processScrapeQueue_def schedInv_def)
next
  case False
  then have "processScrapeQueue ids c =
      processNext c \<lparr>queue = ids, activeCount = 0, resolved = 0, inflight = [], started = [],
           finished = []\<rparr>"
    by (simp add: processScrapeQueue_def)
  moreover have "schedInv ids c
      (processNext c \<lparr>queue = ids, activeCount = 0, resolved = 0, inflight = [], started = [],
           finished = []\<rparr>)"
    using False assms by (intro processNext_starts) simp_all
  ultimately show ?thesis by simp
qed

lemma onFinally_inv:
  assumes inv: "schedInv ids c s" and i: "i \<in> set (inflight s)"
  shows "schedInv ids c (onFinally c i s)"
proof -
  let ?s1 = "s\<lparr>activeCount := activeCount s - 1, inflight := remove1 i (inflight s),
                finished := finished s @ [i]\<rparr>"
  have ne: "inflight s \<noteq> []" using i by auto
  have a: "activeCount s = int (length (inflight s))"
    and st: "started s @ queue s = ids"
    and ms: "mset (finished s) + mset (inflight s) = mset (started s)"
    and le: "activeCount s \<le> c"
    and full: "queue s \<noteq> [] \<longrightarrow> activeCount s = c"
    and r0: "resolved s = 0"
    using inv ne unfolding schedInv_def by auto
  have l1: "length (remove1 i (inflight s)) = length (inflight s) - 1"
    using i by (simp add: length_remove1)
  have pos: "1 \<le> length (inflight s)" using ne by (cases "inflight s") auto
  have a1: "activeCount ?s1 = int (length (inflight ?s1))"
    using a l1 pos by simp
  have r: "add_mset i (mset (remove1 i (inflight s))) = mset (inflight s)"
    using i by simp
  have "mset (finished ?s1) + mset (inflight ?s1)
      = mset (finished s) + add_mset i (mset (remove1 i (inflight s)))"
    by simp
  also have "\<dots> = mset (finished s) + mset (inflight s)"
    by (simp only: r)
  finally have m1: "mset (finished ?s1) + mset (inflight ?s1) = mset (started ?s1)"
    using ms by simp
  show ?thesis
  proof (cases "queue s = []")
    case False
    then have lt: "activeCount ?s1 < c" using full by simp
    have "schedInv ids c (processNext c ?s1)"
      using a1 m1 lt False st r0 by (intro processNext_starts) simp_all
    moreover have "onFinally c i s = processNext c ?s1"
      using False by (simp add: onFinally_def Let_def)
    ultimately show ?thesis by simp
  next
    case True
    show ?thesis
    proof (cases "activeCount ?s1 = 0")
      case z: True
      then have e: "inflight ?s1 = []" using a1 by simp
      have "onFinally c i s = resolve ?s1"
        using True z by (simp add: onFinally_def Let_def)
      then show ?thesis
        using True e a1 m1 st r0 le a pos unfolding schedInv_def resolve_def by simp
    next
      case nz: False
      then have e: "inflight ?s1 \<noteq> []" using a1 by auto
      have "onFinally c i s = ?s1"
        using True nz by (simp add: onFinally_def Let_def)
      then show ?thesis
        using True e a1 m1 st r0 le unfolding schedInv_def by simp
    qed
  qed
qed

lemma reachable_inv:
  assumes "reachable ids c s" and "1 \<le> c"
  shows "schedInv ids c s"
  using assms
proof (induction rule: reachable.induct)
  case init
  then show ?case by (rule processScrapeQueue_inv)
next
  case (settle s i)
  then show ?case by (simp add: onFinally_inv)
qed

lemma onFinally_starts_next:
  assumes inv: "schedInv ids c s" and i: "i \<in> set (inflight s)" and q: "queue s = q # qs"
  shows "started (onFinally c i s) = started s @ [q]
     \<and> inflight (onFinally c i s) = remove1 i (inflight s) @ [q]
     \<and> queue (onFinally c i s) = qs"
proof -
  let ?s1 = "s\<lparr>activeCount := activeCount s - 1, inflight := remove1 i (inflight s),
                finished := finished s @ [i]\<rparr>"
  have full: "activeCount s = c" using inv q unfolding schedInv_def by simp
  have pos: "1 \<le> activeCount s" using inv i unfolding schedInv_def by (cases "inflight s") auto
  have k: "min (nat (c - activeCount ?s1)) (length (queue ?s1)) = 1"
    using full q by simp
  have sl: "startLoop c ?s1 = ?s1\<lparr>queue := qs, activeCount := activeCount s,
      inflight := remove1 i (inflight s) @ [q], started := started s @ [q]\<rparr>"
    unfolding startLoop_closed k Let_def using q by simp
  have "onFinally c i s = processNext c ?s1"
    using q by (simp add: onFinally_def Let_def)
  also have "\<dots> = startLoop c ?s1"
    using pos unfolding processNext_def sl Let_def by simp
  finally show ?thesis unfolding sl by simp
qed

lemma onFinally_finished: "finished (onFinally c i s) = finished s @ [i]"
  by (simp add: onFinally_def processNext_def resolve_def startLoop_closed Let_def)

text \<open>
  Claim C3, for a ceiling of at least one. In every state that the scheduler reaches:
  the tasks in flight are at most \<open>concurrency\<close> and at most the ids not yet finished; the
  ids started so far, followed by the queue, are the ids supplied, so ids start in the
  order given; while ids are queued exactly \<open>concurrency\<close> tasks are in flight, and the
  callback of a finishing task starts the head of the queue at once; \<open>resolve\<close> is called at
  most once, it has been called exactly when the queue is empty and nothing is in flight,
  which is exactly when all ids have finished; and a state with nothing in flight is
  resolved, so the scheduler never stops before.
\<close>

theorem processScrapeQueue_schedule:
  assumes "1 \<le> concurrency" and "reachable entryIds concurrency s"
  shows
    "int (length (inflight s))
        \<le> min concurrency (int (length entryIds) - int (length (finished s)))
     \<and> activeCount s = int (length (inflight s))
     \<and> started s @ queue s = entryIds
     \<and> mset (finished s) + mset (inflight s) = mset (started s)
     \<and> (queue s \<noteq> [] \<longrightarrow> int (length (inflight s)) = concurrency)
     \<and> (i \<in> set (inflight s) \<and> queue s = q # qs
          \<longrightarrow> started (onFinally concurrency i s) = started s @ [q]
              \<and> inflight (onFinally concurrency i s) = remove1 i (inflight s) @ [q]
              \<and> queue (onFinally concurrency i s) = qs)
     \<and> (i \<in> set (inflight s)
          \<longrightarrow> finished (onFinally concurrency i s) = finished s @ [i])
     \<and> resolved s \<le> 1
     \<and> (resolved s = 1 \<longleftrightarrow> queue s = [] \<and> inflight s = [])
     \<and> (resolved s = 1 \<longleftrightarrow> length (finished s) = length entryIds)
     \<and> (resolved s = 1 \<longrightarrow> mset (finished s) = mset entryIds)
     \<and> (inflight s = [] \<longrightarrow> resolved s = 1)"
proof -
  have inv: "schedInv entryIds concurrency s"
    using assms(2,1) by (rule reachable_inv)
  then have a: "activeCount s = int (length (inflight s))"
    and st: "started s @ queue s = entryIds"
    and ms: "mset (finished s) + mset (inflight s) = mset (started s)"
    and le: "activeCount s \<le> concurrency"
    and full: "queue s \<noteq> [] \<longrightarrow> activeCount s = concurrency"
    and r: "resolved s = (if queue s = [] \<and> inflight s = [] then 1 else 0)"
    unfolding schedInv_def by auto
  have sz: "length (finished s) + length (inflight s) = length (started s)"
    using ms by (metis size_mset size_union)
  have n: "length (started s) + length (queue s) = length entryIds"
    using st by (metis length_append)
  have c1: "int (length (inflight s))
        \<le> min concurrency (int (length entryIds) - int (length (finished s)))"
    using a le sz n by simp
  have c5: "queue s \<noteq> [] \<longrightarrow> int (length (inflight s)) = concurrency"
    using a full by simp
  have c6: "i \<in> set (inflight s) \<and> queue s = q # qs
          \<longrightarrow> started (onFinally concurrency i s) = started s @ [q]
              \<and> inflight (onFinally concurrency i s) = remove1 i (inflight s) @ [q]
              \<and> queue (onFinally concurrency i s) = qs"
    using onFinally_starts_next [OF inv] by blast
  have c7: "i \<in> set (inflight s)
          \<longrightarrow> finished (onFinally concurrency i s) = finished s @ [i]"
    by (simp add: onFinally_finished)
  have c8: "resolved s \<le> 1" using r by simp
  have c9: "resolved s = 1 \<longleftrightarrow> queue s = [] \<and> inflight s = []" using r by simp
  have stuck: "queue s \<noteq> [] \<longrightarrow> inflight s \<noteq> []"
    using c5 assms(1) by auto
  have c10: "resolved s = 1 \<longleftrightarrow> length (finished s) = length entryIds"
  proof
    assume "resolved s = 1"
    then show "length (finished s) = length entryIds" using c9 sz n by simp
  next
    assume "length (finished s) = length entryIds"
    then have "length (inflight s) = 0 \<and> length (queue s) = 0" using sz n by linarith
    then show "resolved s = 1" using c9 by simp
  qed
  have c11: "resolved s = 1 \<longrightarrow> mset (finished s) = mset entryIds"
    using c9 ms st by auto
  have c12: "inflight s = [] \<longrightarrow> resolved s = 1"
    using c9 stuck by blast
  show ?thesis using c1 a st ms c5 c6 c7 c8 c9 c10 c11 c12 by blast
qed

text \<open>A run on three ids with two slots; the tasks finish in the order 2, 1, 3.\<close>

lemma sample_run_start:
  "processScrapeQueue [1, 2, 3] 2
     = \<lparr>queue = [3], activeCount = 2, resolved = 0, inflight = [1, 2], started = [1, 2],
        finished = []\<rparr>"
  by (simp add: processScrapeQueue_def processNext_def startLoop_closed Let_def)

lemma sample_run_second:
  "onFinally 2 2 (processScrapeQueue [1, 2, 3] 2)
     = \<lparr>queue = [], activeCount = 2, resolved = 0, inflight = [1, 3], started = [1, 2, 3],
        finished = [2]\<rparr>"
  unfolding sample_run_start
  by (simp add: onFinally_def processNext_def startLoop_closed Let_def)

lemma sample_run_third:
  "onFinally 2 1 (onFinally 2 2 (processScrapeQueue [1, 2, 3] 2))
     = \<lparr>queue = [], activeCount = 1, resolved = 0, inflight = [3], started = [1, 2, 3],
        finished = [2, 1]\<rparr>"
  unfolding sample_run_second by (simp add: onFinally_def Let_def)

lemma sample_run_end:
  "onFinally 2 3 (onFinally 2 1 (onFinally 2 2 (processScrapeQueue [1, 2, 3] 2)))
     = \<lparr>queue = [], activeCount = 0, resolved = 1, inflight = [], started = [1, 2, 3],
        finished = [2, 1, 3]\<rparr>"
  unfolding sample_run_third by (simp add: onFinally_def resolve_def Let_def)

theorem processScrapeQueue_schedule_witness:
  "(1::int) \<le> 2
   \<and> reachable [1, 2, 3] 2 (processScrapeQueue [1, 2, 3] 2)
   \<and> inflight (processScrapeQueue [1, 2, 3] 2) = [1, 2]
   \<and> queue (processScrapeQueue [1, 2, 3] 2) = [3]
   \<and> started (onFinally 2 2 (processScrapeQueue [1, 2, 3] 2)) = [1, 2] @ [3]
   \<and> inflight (onFinally 2 2 (processScrapeQueue [1, 2, 3] 2)) = remove1 2 [1, 2] @ [3]
   \<and> resolved (processScrapeQueue [1, 2, 3] 2) \<noteq> 1
   \<and> reachable [1, 2, 3] 2
        (onFinally 2 3 (onFinally 2 1 (onFinally 2 2 (processScrapeQueue [1, 2, 3] 2))))
   \<and> resolved (onFinally 2 3 (onFinally 2 1 (onFinally 2 2 (processScrapeQueue [1, 2, 3] 2)))) = 1
   \<and> mset (finished
        (onFinally 2 3 (onFinally 2 1 (onFinally 2 2 (processScrapeQueue [1, 2, 3] 2)))))
       = mset [1, 2, 3]"
proof -
  let ?s0 = "processScrapeQueue [1, 2, 3] 2"
  let ?s1 = "onFinally 2 2 ?s0"
  let ?s2 = "onFinally 2 1 ?s1"
  let ?s3 = "onFinally 2 3 ?s2"
  have c: "(1::int) \<le> 2" by simp
  have r0: "reachable [1, 2, 3] 2 ?s0" by (rule reachable.init)
  have r1: "reachable [1, 2, 3] 2 ?s1"
    by (rule reachable.settle [OF r0]) (simp add: sample_run_start)
  have r2: "reachable [1, 2, 3] 2 ?s2"
    by (rule reachable.settle [OF r1]) (simp add: sample_run_second)
  have r3: "reachable [1, 2, 3] 2 ?s3"
    by (rule reachable.settle [OF r2]) (simp add: sample_run_third)
  have i0: "inflight ?s0 = [1, 2]" and q0: "queue ?s0 = [3]" and s0: "started ?s0 = [1, 2]"
    by (simp_all add: sample_run_start)
  have e3: "inflight ?s3 = []" by (simp add: sample_run_end)
  note t0 = processScrapeQueue_schedule [OF c r0, where i = 2 and q = 3 and qs = "[]"]
  note t3 = processScrapeQueue_schedule [OF c r3, where i = 2 and q = 3 and qs = "[]"]
  have a1: "2 \<in> set (inflight ?s0) \<and> queue ?s0 = 3 # []
      \<longrightarrow> started ?s1 = started ?s0 @ [3]
          \<and> inflight ?s1 = remove1 2 (inflight ?s0) @ [3] \<and> queue ?s1 = []"
    using t0 by blast
  have a: "started ?s1 = [1, 2] @ [3] \<and> inflight ?s1 = remove1 2 [1, 2] @ [3]"
    using a1 unfolding i0 q0 s0 by simp
  have b1: "resolved ?s0 = 1 \<longleftrightarrow> queue ?s0 = [] \<and> inflight ?s0 = []"
    using t0 by blast
  have b: "resolved ?s0 \<noteq> 1"
    using b1 unfolding q0 by simp
  have d1: "inflight ?s3 = [] \<longrightarrow> resolved ?s3 = 1"
    using t3 by blast
  have d2: "resolved ?s3 = 1 \<longrightarrow> mset (finished ?s3) = mset [1, 2, 3]"
    using t3 by blast
  have d: "resolved ?s3 = 1 \<and> mset (finished ?s3) = mset [1, 2, 3]"
    using d1 d2 e3 by blast
  show ?thesis using c r0 i0 q0 a b r3 d by blast
qed

text \<open>
  Claim C3 as stated, for every ceiling, fails: with \<open>concurrency = 0\<close> and one id, the
  call starts nothing and does not resolve; no task is in flight, so no callback will
  ever run, and the promise stays pending with the id in the queue.
\<close>

theorem processScrapeQueue_zero_concurrency_counterexample:
  "resolved (processScrapeQueue [1] 0) = 0
   \<and> inflight (processScrapeQueue [1] 0) = []
   \<and> started (processScrapeQueue [1] 0) = []
   \<and> queue (processScrapeQueue [1] 0) = [1]"
  by (simp add: processScrapeQueue_def processNext_def startLoop_closed Let_def)

end
